theory Spec2Isabelle
  imports Complex_Main "HOL-Library.AList"
begin

section \<open>Data model\<close>

text \<open>
  JavaScript numbers are finite doubles, modelled as real numbers; NaN and the infinities
  are not represented. The arithmetic of the grid is rounded to double precision, because
  its clamping rests on a difference of 0.001 that rounding can absorb; the arithmetic
  of the resolver is exact. Objects that the code compares by identity (meshes, grid
  entries) are natural numbers. The vector classes come from the three.js library; the
  operations used by the code are written out below with the meaning the library gives
  them.
\<close>

type_synonym obj = nat

datatype vector3 = Vector3 (vx: real) (vy: real) (vz: real)

datatype vector2 = Vector2 (v2x: real) (v2y: real)

datatype error = TypeError | RangeError

text \<open>A JavaScript \<open>Set\<close> keeps its members in insertion order and without duplicates.\<close>

definition setAdd :: "'a \<Rightarrow> 'a list \<Rightarrow> 'a list" where
  "setAdd a xs = (if a \<in> set xs then xs else xs @ [a])"

definition setDelete :: "'a \<Rightarrow> 'a list \<Rightarrow> 'a list" where
  "setDelete a xs = removeAll a xs"

section \<open>Rounding to double precision\<close>

text \<open>
  \<open>rne\<close> rounds a real number to the nearest integer, a tie to the even one. A double has
  53 significant bits and an exponent of at least -1022: \<open>ulp x\<close> is the distance between
  neighbouring doubles at the magnitude of \<open>x\<close>, and \<open>fl x\<close> is the double nearest to \<open>x\<close>,
  a tie going to the even significand. It is the result of an operation whose exact
  result is \<open>x\<close>. The exponent is not bounded from above: a result beyond the largest
  double \<open>maxDouble\<close> is an infinity in the code, where \<open>fl\<close> gives a finite number. The
  constructor tests for it.
\<close>

definition rne :: "real \<Rightarrow> int" where
  "rne y =
     (let f = \<lfloor>y\<rfloor>; d = y - of_int f
      in if d < 1 / 2 then f else if 1 / 2 < d then f + 1 else if even f then f else f + 1)"

definition expo :: "real \<Rightarrow> int" where
  "expo x = max \<lfloor>log 2 \<bar>x\<bar>\<rfloor> (- 1022)"

definition ulp :: "real \<Rightarrow> real" where
  "ulp x = 2 powr of_int (expo x - 52)"

definition fl :: "real \<Rightarrow> real" where
  "fl x = (if x = 0 then 0 else of_int (rne (x / ulp x)) * ulp x)"

definition maxDouble :: real where
  "maxDouble = (2 ^ 53 - 1) * 2 ^ 971"

section \<open>SpatialHashGrid (src/unnamed/part_001)\<close>

text \<open>
  \<open>cells\<close> is the array of per-cell sets, \<open>objectCells\<close> the \<open>Map\<close> from an object
  to its cell index, kept as an association list in insertion order.
\<close>

record grid =
  cellSize :: real
  worldSizeX :: real
  worldSizeZ :: real
  numCellsX :: int
  numCellsZ :: int
  cells :: "obj list list"
  objectCells :: "(obj \<times> int) list"

text \<open>
  The constructor. \<open>new Array(n)\<close> throws a RangeError unless \<open>n\<close> is an integer in
  \<open>[0, 2^32 - 1]\<close>. A zero cell size or a quotient that overflows makes a cell count
  infinite or NaN, and then the product is infinite or NaN too. The product of two finite
  counts is an integer; it is exact when it lies in \<open>[0, 2^32 - 1]\<close>, and rounding cannot
  move it into that range from outside.
\<close>

definition SpatialHashGrid :: "real \<Rightarrow> real \<Rightarrow> real \<Rightarrow> error + grid" where
  "SpatialHashGrid cs wx wz =
     (if cs = 0 then Inl RangeError
      else
        let qx = fl (wx / cs); qz = fl (wz / cs) in
        if maxDouble < \<bar>qx\<bar> \<or> maxDouble < \<bar>qz\<bar> then Inl RangeError
        else
          let nx = \<lceil>qx\<rceil>; nz = \<lceil>qz\<rceil> in
          if nx * nz < 0 \<or> 4294967295 < nx * nz then Inl RangeError
          else Inr \<lparr>cellSize = cs, worldSizeX = wx, worldSizeZ = wz,
                    numCellsX = nx, numCellsZ = nz,
                    cells = replicate (nat (nx * nz)) [],
                    objectCells = []\<rparr>)"

text \<open>
  \<open>getCellIndex\<close>: the literal \<open>0.001\<close> is the double \<open>fl 0.001\<close>; the subtraction, the
  division, the product and the sum are each rounded. The result is a double with an
  integer value.
\<close>

definition getCellIndex :: "grid \<Rightarrow> real \<Rightarrow> real \<Rightarrow> int" where
  "getCellIndex g x z =
     (let cellX = \<lfloor>fl (max 0 (min x (fl (worldSizeX g - fl 0.001))) / cellSize g)\<rfloor>;
          cellZ = \<lfloor>fl (max 0 (min z (fl (worldSizeZ g - fl 0.001))) / cellSize g)\<rfloor>
      in \<lfloor>fl (of_int cellX + fl (of_int cellZ * of_int (numCellsX g)))\<rfloor>)"

text \<open>
  \<open>this.cells[i]\<close> is \<open>undefined\<close> when \<open>i\<close> is not an index of the array; calling a
  method on it throws a TypeError.
\<close>

definition cellAt :: "grid \<Rightarrow> int \<Rightarrow> obj list option" where
  "cellAt g i = (if 0 \<le> i \<and> i < int (length (cells g)) then Some (cells g ! nat i) else None)"

definition insertObject :: "grid \<Rightarrow> obj \<Rightarrow> vector3 \<Rightarrow> error + grid" where
  "insertObject g object position =
     (let cellIndex = getCellIndex g (vx position) (vz position) in
      case cellAt g cellIndex of
        None \<Rightarrow> Inl TypeError
      | Some cell \<Rightarrow>
          Inr (g\<lparr>cells := (cells g)[nat cellIndex := setAdd object cell],
                 objectCells := AList.update object cellIndex (objectCells g)\<rparr>))"

definition removeObject :: "grid \<Rightarrow> obj \<Rightarrow> error + grid" where
  "removeObject g object =
     (case map_of (objectCells g) object of
        None \<Rightarrow> Inr g
      | Some cellIndex \<Rightarrow>
          (case cellAt g cellIndex of
             None \<Rightarrow> Inl TypeError
           | Some cell \<Rightarrow>
               Inr (g\<lparr>cells := (cells g)[nat cellIndex := setDelete object cell],
                      objectCells := AList.delete object (objectCells g)\<rparr>)))"

definition updateObject :: "grid \<Rightarrow> obj \<Rightarrow> vector3 \<Rightarrow> error + grid" where
  "updateObject g object position =
     (case removeObject g object of
        Inl e \<Rightarrow> Inl e
      | Inr g' \<Rightarrow> insertObject g' object position)"

text \<open>The four bounds of the cell range that \<open>findNearbyObjects\<close> computes first.\<close>

definition minCellX :: "grid \<Rightarrow> vector3 \<Rightarrow> real \<Rightarrow> int" where
  "minCellX g position radius = \<lfloor>fl (max 0 (fl (vx position - radius)) / cellSize g)\<rfloor>"

definition maxCellX :: "grid \<Rightarrow> vector3 \<Rightarrow> real \<Rightarrow> int" where
  "maxCellX g position radius =
     \<lfloor>fl (min (fl (worldSizeX g - fl 0.001)) (fl (vx position + radius)) / cellSize g)\<rfloor>"

definition minCellZ :: "grid \<Rightarrow> vector3 \<Rightarrow> real \<Rightarrow> int" where
  "minCellZ g position radius = \<lfloor>fl (max 0 (fl (vz position - radius)) / cellSize g)\<rfloor>"

definition maxCellZ :: "grid \<Rightarrow> vector3 \<Rightarrow> real \<Rightarrow> int" where
  "maxCellZ g position radius =
     \<lfloor>fl (min (fl (worldSizeZ g - fl 0.001)) (fl (vz position + radius)) / cellSize g)\<rfloor>"

text \<open>
  The two nested loops of \<open>findNearbyObjects\<close>; a cell index outside the array is
  skipped by the \<open>if (cell)\<close> test. The loop counters are integers: in the code they are
  doubles with integer values, which count exactly below \<open>2^53\<close>.
\<close>

definition addCell :: "grid \<Rightarrow> int \<Rightarrow> obj list \<Rightarrow> int \<Rightarrow> obj list" where
  "addCell g z nearby x =
     (case cellAt g \<lfloor>fl (of_int x + fl (of_int z * of_int (numCellsX g)))\<rfloor> of
        None \<Rightarrow> nearby
      | Some cell \<Rightarrow> foldl (\<lambda>acc ob. setAdd ob acc) nearby cell)"

definition findNearbyObjects :: "grid \<Rightarrow> vector3 \<Rightarrow> real \<Rightarrow> obj list" where
  "findNearbyObjects g position radius =
     foldl (\<lambda>nearby z.
              foldl (addCell g z) nearby [minCellX g position radius..maxCellX g position radius])
           [] [minCellZ g position radius..maxCellZ g position radius]"

definition clearGrid :: "grid \<Rightarrow> grid" where
  "clearGrid g = g\<lparr>cells := map (\<lambda>_. []) (cells g), objectCells := []\<rparr>"

section \<open>Vector operations of three.js used by the collision code\<close>

definition multiplyScalar :: "vector3 \<Rightarrow> real \<Rightarrow> vector3" where
  "multiplyScalar v s = Vector3 (vx v * s) (vy v * s) (vz v * s)"

definition sub3 :: "vector3 \<Rightarrow> vector3 \<Rightarrow> vector3" where
  "sub3 a b = Vector3 (vx a - vx b) (vy a - vy b) (vz a - vz b)"

definition add3 :: "vector3 \<Rightarrow> vector3 \<Rightarrow> vector3" where
  "add3 a b = Vector3 (vx a + vx b) (vy a + vy b) (vz a + vz b)"

definition distanceTo :: "vector2 \<Rightarrow> vector2 \<Rightarrow> real" where
  "distanceTo a b =
     (let dx = v2x a - v2x b; dy = v2y a - v2y b in sqrt (dx * dx + dy * dy))"

definition length2 :: "vector2 \<Rightarrow> real" where
  "length2 v = sqrt (v2x v * v2x v + v2y v * v2y v)"

text \<open>\<open>normalize\<close> is \<open>divideScalar(length() || 1)\<close>, and \<open>divideScalar(s)\<close> multiplies by \<open>1 / s\<close>.\<close>

definition normalize :: "vector2 \<Rightarrow> vector2" where
  "normalize v =
     (let l = length2 v; s = (if l = 0 then 1 else l)
      in Vector2 (v2x v * (1 / s)) (v2y v * (1 / s)))"

section \<open>Heap of position vectors\<close>

text \<open>
  The position arguments of \<open>checkCollisions\<close> are mutable \<open>Vector3\<close> objects, and its
  result is either one of them or a new one. They live in a store, a list indexed by
  reference; \<open>clone\<close> allocates the next reference.
\<close>

type_synonym ref = nat

type_synonym store = "vector3 list"

definition clone :: "store \<Rightarrow> ref \<Rightarrow> store \<times> ref" where
  "clone st r = (st @ [st ! r], length st)"

section \<open>CollisionSystem (src/collision-system.js)\<close>

text \<open>
  A wall collider owns its position and size vectors (both are made by the collider's
  constructor and never handed out), so they are kept as values. The scene and the debug
  helpers, which are off, are rendering state and are left out.
\<close>

record wallCollider =
  wposition :: vector3
  wsize :: vector3
  mesh :: obj

record player_collider =
  pposition :: vector3
  radius :: real
  height :: real

record collisionSystem =
  colliders :: "wallCollider list"
  playerCollider :: "player_collider option"
  playerRadius :: real
  playerHeight :: real
  spatialGrid :: "grid option"
  maxCheckDistance :: real
  activeColliders :: "wallCollider list"
  lastFrameCollisionChecks :: nat
  totalCollisionChecks :: nat

definition CollisionSystem :: collisionSystem where
  "CollisionSystem =
     \<lparr>colliders = [], playerCollider = None, playerRadius = 0.5, playerHeight = 1.8,
      spatialGrid = None, maxCheckDistance = 5, activeColliders = [],
      lastFrameCollisionChecks = 0, totalCollisionChecks = 0\<rparr>"

definition createPlayerCollider :: "collisionSystem \<Rightarrow> vector3 \<Rightarrow> collisionSystem" where
  "createPlayerCollider sys position =
     sys\<lparr>playerCollider :=
           Some \<lparr>pposition = position, radius = playerRadius sys, height = playerHeight sys\<rparr>\<rparr>"

text \<open>
  \<open>addWallCollider\<close> reads the centre of the mesh and the size of its bounding box from
  the rendering engine; here they are arguments.
\<close>

definition addWallCollider :: "collisionSystem \<Rightarrow> obj \<Rightarrow> vector3 \<Rightarrow> vector3 \<Rightarrow> collisionSystem" where
  "addWallCollider sys m position sz =
     sys\<lparr>colliders := colliders sys @ [\<lparr>wposition = position, wsize = sz, mesh = m\<rparr>]\<rparr>"

definition updatePlayerPosition :: "collisionSystem \<Rightarrow> vector3 \<Rightarrow> collisionSystem" where
  "updatePlayerPosition sys position =
     (case playerCollider sys of
        None \<Rightarrow> sys
      | Some pc \<Rightarrow> sys\<lparr>playerCollider := Some (pc\<lparr>pposition := position\<rparr>)\<rparr>)"

definition setSpatialGrid :: "collisionSystem \<Rightarrow> grid \<Rightarrow> collisionSystem" where
  "setSpatialGrid sys g = sys\<lparr>spatialGrid := Some g\<rparr>"

definition clear :: "collisionSystem \<Rightarrow> collisionSystem" where
  "clear sys = sys\<lparr>colliders := [], playerCollider := None\<rparr>"

text \<open>
  The search for the minimum-penetration side: \<open>minDist\<close> and \<open>minAxis\<close> start at side 0
  and are replaced only by a strictly smaller distance.
\<close>

definition minAxisOf :: "real list \<Rightarrow> nat" where
  "minAxisOf dists =
     snd (foldl (\<lambda>(minDist, minAxis) i.
                   if dists ! i < minDist then (dists ! i, i) else (minDist, minAxis))
                (dists ! 0, 0) [1, 2, 3])"

text \<open>
  One pass of the loop over the colliders to check, as a function of the player radius
  and the current value of \<open>adjustedPosition\<close>.
\<close>

definition resolveCollider :: "real \<Rightarrow> vector3 \<Rightarrow> wallCollider \<Rightarrow> vector3" where
  "resolveCollider r adjusted c =
     (let halfSize = multiplyScalar (wsize c) 0.5;
          boxMin = sub3 (wposition c) halfSize;
          boxMax = add3 (wposition c) halfSize;
          point2D = Vector2 (vx adjusted) (vz adjusted);
          boxMin2D = Vector2 (vx boxMin) (vz boxMin);
          boxMax2D = Vector2 (vx boxMax) (vz boxMax);
          closestPoint = Vector2 (max (v2x boxMin2D) (min (v2x point2D) (v2x boxMax2D)))
                                 (max (v2y boxMin2D) (min (v2y point2D) (v2y boxMax2D)));
          distance = distanceTo point2D closestPoint
      in if distance < r then
           let penetration = r - distance in
           if penetration > 0 \<and> distance > 0 then
             let direction = normalize (Vector2 (v2x point2D - v2x closestPoint)
                                                (v2y point2D - v2y closestPoint))
             in Vector3 (vx adjusted + v2x direction * penetration) (vy adjusted)
                        (vz adjusted + v2y direction * penetration)
           else if distance = 0 then
             let dists = [vx adjusted - vx boxMin, vx boxMax - vx adjusted,
                          vz adjusted - vz boxMin, vz boxMax - vz adjusted];
                 minAxis = minAxisOf dists
             in if minAxis = 0 then Vector3 (vx boxMin - r) (vy adjusted) (vz adjusted)
                else if minAxis = 1 then Vector3 (vx boxMax + r) (vy adjusted) (vz adjusted)
                else if minAxis = 2 then Vector3 (vx adjusted) (vy adjusted) (vz boxMin - r)
                else if minAxis = 3 then Vector3 (vx adjusted) (vy adjusted) (vz boxMax + r)
                else adjusted
           else adjusted
         else adjusted)"

text \<open>
  The loop itself: it counts the check and rewrites the object \<open>adjusted\<close> in the store.
\<close>

fun checkLoop :: "collisionSystem \<Rightarrow> store \<Rightarrow> ref \<Rightarrow> wallCollider list \<Rightarrow> collisionSystem \<times> store" where
  "checkLoop sys st adjusted [] = (sys, st)"
| "checkLoop sys st adjusted (c # cs) =
     checkLoop (sys\<lparr>lastFrameCollisionChecks := lastFrameCollisionChecks sys + 1,
                    totalCollisionChecks := totalCollisionChecks sys + 1\<rparr>)
               (st[adjusted := resolveCollider (playerRadius sys) (st ! adjusted) c])
               adjusted cs"

text \<open>
  The colliders whose mesh the grid reports near the proposed position, in the order the
  grid reports the meshes; \<open>find\<close> takes the first collider of a mesh. The set
  \<open>activeColliders\<close> holds colliders by identity; the colliders found for different
  meshes differ in their \<open>mesh\<close> field, so comparing them by value adds the same ones.
\<close>

definition nearbyColliders :: "collisionSystem \<Rightarrow> obj list \<Rightarrow> wallCollider list" where
  "nearbyColliders sys nearbyObjects =
     foldl (\<lambda>active ob.
              case find (\<lambda>c. mesh c = ob) (colliders sys) of
                None \<Rightarrow> active
              | Some matchingCollider \<Rightarrow> setAdd matchingCollider active)
           [] nearbyObjects"

definition checkCollisions ::
  "collisionSystem \<Rightarrow> store \<Rightarrow> ref \<Rightarrow> ref \<Rightarrow> collisionSystem \<times> store \<times> ref" where
  "checkCollisions sys st playerPosition proposedPosition =
     (case playerCollider sys of
        None \<Rightarrow> (sys, st, proposedPosition)
      | Some _ \<Rightarrow>
          let (st1, adjustedPosition) = clone st proposedPosition;
              sys1 = sys\<lparr>lastFrameCollisionChecks := 0\<rparr>;
              sys2 = (case spatialGrid sys1 of
                        None \<Rightarrow> sys1
                      | Some g \<Rightarrow>
                          sys1\<lparr>activeColliders :=
                                 nearbyColliders sys1
                                   (findNearbyObjects g (st1 ! proposedPosition)
                                      (maxCheckDistance sys1))\<rparr>);
              collidersToCheck = (case spatialGrid sys2 of
                                    None \<Rightarrow> colliders sys2
                                  | Some _ \<Rightarrow> activeColliders sys2);
              (sys3, st2) = checkLoop sys2 st1 adjustedPosition collidersToCheck;
              a = st2 ! adjustedPosition;
              st3 = st2[adjustedPosition := Vector3 (vx a) (vy (st2 ! playerPosition)) (vz a)]
          in (sys3, st3, adjustedPosition))"

section \<open>The motion controller's use of the resolver\<close>

text \<open>
  \<open>FirstPersonCamera.updateTranslation_\<close>: the camera's \<open>translation_\<close> vector is cloned
  to the current position, that to the proposed position, which is moved by the two
  displacements; the resolved position is copied back into \<open>translation_\<close>.
\<close>

definition updateTranslation ::
  "collisionSystem \<Rightarrow> store \<Rightarrow> ref \<Rightarrow> vector3 \<Rightarrow> vector3 \<Rightarrow> collisionSystem \<times> store" where
  "updateTranslation sys st translation forward left =
     (let (st1, currentPosition) = clone st translation;
          (st2, proposedPosition) = clone st1 currentPosition;
          st3 = st2[proposedPosition := add3 (add3 (st2 ! proposedPosition) forward) left];
          (sys', st4, adjustedPosition) = checkCollisions sys st3 currentPosition proposedPosition
      in (sys', st4[translation := st4 ! adjustedPosition]))"

text \<open>The positions of the camera after each of a sequence of forward steps.\<close>

fun walk :: "collisionSystem \<Rightarrow> store \<Rightarrow> ref \<Rightarrow> vector3 list \<Rightarrow> vector3 list" where
  "walk sys st translation [] = []"
| "walk sys st translation (forward # steps) =
     (let (sys', st') = updateTranslation sys st translation forward (Vector3 0 0 0)
      in st' ! translation # walk sys' st' translation steps)"

section \<open>Notions used to state the properties of the resolver\<close>

text \<open>
  The box of a collider and the distance from a position to the closest point of the box,
  computed as \<open>checkCollisions\<close> computes them (the Y axis is ignored).
\<close>

definition boxMin :: "wallCollider \<Rightarrow> vector3" where
  "boxMin c = sub3 (wposition c) (multiplyScalar (wsize c) 0.5)"

definition boxMax :: "wallCollider \<Rightarrow> vector3" where
  "boxMax c = add3 (wposition c) (multiplyScalar (wsize c) 0.5)"

definition closestPoint :: "wallCollider \<Rightarrow> vector3 \<Rightarrow> vector2" where
  "closestPoint c p =
     Vector2 (max (vx (boxMin c)) (min (vx p) (vx (boxMax c))))
             (max (vz (boxMin c)) (min (vz p) (vz (boxMax c))))"

definition surfaceDistance :: "wallCollider \<Rightarrow> vector3 \<Rightarrow> real" where
  "surfaceDistance c p = distanceTo (Vector2 (vx p) (vz p)) (closestPoint c p)"

text \<open>The colliders that a call of \<open>checkCollisions\<close> with the given proposed position checks.\<close>

definition collidersToCheck :: "collisionSystem \<Rightarrow> vector3 \<Rightarrow> wallCollider list" where
  "collidersToCheck sys proposed =
     (case spatialGrid sys of
        None \<Rightarrow> colliders sys
      | Some g \<Rightarrow> nearbyColliders sys (findNearbyObjects g proposed (maxCheckDistance sys)))"

text \<open>The position vector that a call returns: the object at the returned reference.\<close>

definition resultOf :: "collisionSystem \<times> store \<times> ref \<Rightarrow> vector3" where
  "resultOf out = (case out of (sys', st', r) \<Rightarrow> st' ! r)"

text \<open>
  The camera positions of \<open>walk\<close> when every step checks the single collider \<open>c\<close> with
  player radius \<open>r\<close>, as a function of the positions alone.
\<close>

fun walkPositions :: "real \<Rightarrow> wallCollider \<Rightarrow> vector3 \<Rightarrow> vector3 list \<Rightarrow> vector3 list" where
  "walkPositions r c p [] = []"
| "walkPositions r c p (f # fs) =
     (let a = resolveCollider r (add3 (add3 p f) (Vector3 0 0 0)) c;
          q = Vector3 (vx a) (vy p) (vz a)
      in q # walkPositions r c q fs)"

section \<open>Sequences of grid operations and the grid's invariants\<close>

text \<open>
  Callers drive the grid through \<open>insertObject\<close>, \<open>updateObject\<close> and \<open>removeObject\<close>;
  a sequence of such calls stops at the first exception.
\<close>

datatype gridOp = Insert obj vector3 | Update obj vector3 | Remove obj

fun applyOp :: "grid \<Rightarrow> gridOp \<Rightarrow> error + grid" where
  "applyOp g (Insert ob p) = insertObject g ob p"
| "applyOp g (Update ob p) = updateObject g ob p"
| "applyOp g (Remove ob) = removeObject g ob"

fun applyOps :: "grid \<Rightarrow> gridOp list \<Rightarrow> error + grid" where
  "applyOps g [] = Inr g"
| "applyOps g (a # as) =
     (case applyOp g a of Inl e \<Rightarrow> Inl e | Inr g' \<Rightarrow> applyOps g' as)"

text \<open>
  The grid that a sequence of calls leaves behind. When a call throws, the sequence stops
  with the grid as that call left it: \<open>insertObject\<close> and \<open>removeObject\<close> throw, if they
  do, at their first access to a cell, before any change; \<open>updateObject\<close> can throw in
  its \<open>insertObject\<close>, after its \<open>removeObject\<close> has returned.
\<close>

fun stateAtThrow :: "grid \<Rightarrow> gridOp \<Rightarrow> grid" where
  "stateAtThrow g (Insert ob p) = g"
| "stateAtThrow g (Update ob p) = (case removeObject g ob of Inl e \<Rightarrow> g | Inr g' \<Rightarrow> g')"
| "stateAtThrow g (Remove ob) = g"

fun finalState :: "grid \<Rightarrow> gridOp list \<Rightarrow> grid" where
  "finalState g [] = g"
| "finalState g (a # as) =
     (case applyOp g a of Inl e \<Rightarrow> stateAtThrow g a | Inr g' \<Rightarrow> finalState g' as)"

text \<open>
  \<open>safeInserts g ops\<close>: every \<open>insertObject\<close> of the sequence is called on an object that
  the tracking map does not hold at that moment, or holds in the cell of the new position.
\<close>

fun safeInserts :: "grid \<Rightarrow> gridOp list \<Rightarrow> bool" where
  "safeInserts g [] = True"
| "safeInserts g (a # as) =
     ((case a of
         Insert ob p \<Rightarrow>
           (case map_of (objectCells g) ob of
              None \<Rightarrow> True
            | Some ci \<Rightarrow> ci = getCellIndex g (vx p) (vz p))
       | _ \<Rightarrow> True)
      \<and> (case applyOp g a of Inl e \<Rightarrow> True | Inr g' \<Rightarrow> safeInserts g' as))"

text \<open>
  Sizes of ordinary magnitude: world sizes of at most \<open>2^41\<close> (about \<open>2.2e12\<close>), and
  neither a world size below \<open>2^-400\<close> nor a cell size above \<open>2^400\<close>, which keeps the
  quotient of world size and cell size away from underflow.
\<close>

definition ordinarySizes :: "real \<Rightarrow> real \<Rightarrow> real \<Rightarrow> bool" where
  "ordinarySizes cs wx wz =
     (0 < cs \<and> cs \<le> 2 ^ 400 \<and> 1 / 2 ^ 400 \<le> wx \<and> wx \<le> 2 ^ 41
      \<and> 1 / 2 ^ 400 \<le> wz \<and> wz \<le> 2 ^ 41)"

text \<open>The shape the constructor gives a grid with sizes of ordinary magnitude.\<close>

definition wellFormed :: "grid \<Rightarrow> bool" where
  "wellFormed g =
     (ordinarySizes (cellSize g) (worldSizeX g) (worldSizeZ g)
      \<and> numCellsX g = \<lceil>fl (worldSizeX g / cellSize g)\<rceil>
      \<and> numCellsZ g = \<lceil>fl (worldSizeZ g / cellSize g)\<rceil>
      \<and> int (length (cells g)) = numCellsX g * numCellsZ g
      \<and> numCellsX g * numCellsZ g \<le> 4294967295)"

text \<open>
  The cell coordinate that \<open>getCellIndex\<close> computes on one axis, for cell size \<open>cs\<close> and
  world size \<open>w\<close>.
\<close>

definition cellCoordinate :: "real \<Rightarrow> real \<Rightarrow> real \<Rightarrow> int" where
  "cellCoordinate cs w v = \<lfloor>fl (max 0 (min v (fl (w - fl 0.001))) / cs)\<rfloor>"

text \<open>
  Exclusive membership: every object of the tracking map is in the cell recorded for it
  and in no other cell, and every member of a cell has an entry in the tracking map.
\<close>

definition exclusiveMembership :: "grid \<Rightarrow> bool" where
  "exclusiveMembership g =
     ((\<forall>ob \<in> set (map fst (objectCells g)).
         case map_of (objectCells g) ob of
           None \<Rightarrow> False
         | Some ci \<Rightarrow> 0 \<le> ci \<and> ci < int (length (cells g))
                     \<and> (\<forall>j < length (cells g). (ob \<in> set (cells g ! j)) = (j = nat ci)))
      \<and> (\<forall>j < length (cells g). \<forall>ob \<in> set (cells g ! j). map_of (objectCells g) ob \<noteq> None))"

section \<open>Fixtures\<close>

text \<open>A grid of cell size 5 over a 20 by 20 world, as the constructor builds it.\<close>

definition grid20 :: grid where
  "grid20 = \<lparr>cellSize = 5, worldSizeX = 20, worldSizeZ = 20, numCellsX = 4, numCellsZ = 4,
             cells = replicate 16 [], objectCells = []\<rparr>"

text \<open>Grids reached from \<open>grid20\<close> by the operation sequences used below.\<close>

definition gridOne :: grid where
  "gridOne = grid20\<lparr>cells := (cells grid20)[5 := [1]], objectCells := [(1, 5)]\<rparr>"

definition gridTwice :: grid where
  "gridTwice = grid20\<lparr>cells := (cells grid20)[0 := [1], 1 := [1]], objectCells := [(1, 1)]\<rparr>"

text \<open>
  A grid whose world size, \<open>10 + 2^-11\<close>, is less than 0.001 above a cell boundary, with
  object 1 inserted at \<open>x = 10 + 2^-12\<close>, \<open>z = 2\<close>.
\<close>

definition gridEdge :: grid where
  "gridEdge = \<lparr>cellSize = 5, worldSizeX = 20481 / 2048, worldSizeZ = 20481 / 2048,
               numCellsX = 3, numCellsZ = 3,
               cells = [[], [1], [], [], [], [], [], [], []], objectCells = [(1, 1)]\<rparr>"

text \<open>The grid of cell size \<open>1e13\<close> over a world of \<open>1e14\<close> by \<open>1e14\<close>.\<close>

definition gridHuge :: grid where
  "gridHuge = \<lparr>cellSize = 10000000000000, worldSizeX = 100000000000000,
               worldSizeZ = 100000000000000, numCellsX = 10, numCellsZ = 10,
               cells = replicate 100 [], objectCells = []\<rparr>"

definition gridMoved :: grid where
  "gridMoved = grid20\<lparr>cells := (cells grid20)[0 := [2], 10 := [1]],
                      objectCells := [(1, 10), (2, 0)]\<rparr>"

text \<open>
  Boxes centred at the origin, and a resolver set up through its interface with one wall
  collider and a player collider.
\<close>

definition box22 :: wallCollider where
  "box22 = \<lparr>wposition = Vector3 0 0 0, wsize = Vector3 2 2 2, mesh = 0\<rparr>"

definition box42 :: wallCollider where
  "box42 = \<lparr>wposition = Vector3 0 0 0, wsize = Vector3 4 2 2, mesh = 0\<rparr>"

definition resolverWith :: "wallCollider \<Rightarrow> vector3 \<Rightarrow> collisionSystem" where
  "resolverWith c start =
     createPlayerCollider (addWallCollider CollisionSystem (mesh c) (wposition c) (wsize c)) start"

section \<open>Properties of rounding\<close>

lemma rne_of_int: "rne (of_int k) = k"
  by (simp add: rne_def)

lemma rne_bounds: "\<lfloor>y\<rfloor> \<le> rne y \<and> rne y \<le> \<lfloor>y\<rfloor> + 1"
  by (simp add: rne_def Let_def)

lemma rne_error: "\<bar>of_int (rne y) - y\<bar> \<le> 1 / 2"
proof -
  have "of_int \<lfloor>y\<rfloor> \<le> y" "y < of_int \<lfloor>y\<rfloor> + 1" by linarith+
  then show ?thesis by (auto simp: rne_def Let_def)
qed

lemma rne_near:
  assumes "\<bar>y - of_int n\<bar> < 1 / 2"
  shows "rne y = n"
proof -
  have e: "\<bar>of_int (rne y) - y\<bar> \<le> 1 / 2" by (rule rne_error)
  have "\<bar>(of_int (rne y) :: real) - of_int n\<bar> < 1" using assms e by linarith
  then have "\<bar>(of_int (rne y - n) :: real)\<bar> < 1" by simp
  then have "\<bar>rne y - n\<bar> < 1" by (simp only: of_int_abs[symmetric] of_int_less_1_iff)
  then show ?thesis by linarith
qed

lemma rne_mono:
  assumes "x \<le> y"
  shows "rne x \<le> rne y"
proof (cases "\<lfloor>x\<rfloor> = \<lfloor>y\<rfloor>")
  case True
  then show ?thesis using assms by (auto simp: rne_def Let_def)
next
  case False
  then have "\<lfloor>x\<rfloor> < \<lfloor>y\<rfloor>" using assms floor_mono[of x y] by linarith
  then show ?thesis using rne_bounds[of x] rne_bounds[of y] by linarith
qed

lemma rne_ge_int: "of_int k \<le> y \<Longrightarrow> k \<le> rne y"
  using rne_mono[of "of_int k" y] by (simp add: rne_of_int)

lemma rne_le_int: "y \<le> of_int k \<Longrightarrow> rne y \<le> k"
  using rne_mono[of y "of_int k"] by (simp add: rne_of_int)

lemma rne_minus: "rne (- y) = - rne y"
proof (cases "y = of_int \<lfloor>y\<rfloor>")
  case True
  then obtain k where k: "y = of_int k" by blast
  have "rne (- y) = rne (of_int (- k))" by (simp add: k)
  also have "\<dots> = - k" by (rule rne_of_int)
  finally show ?thesis by (simp add: k rne_of_int)
next
  case False
  define f where "f = \<lfloor>y\<rfloor>"
  define d where "d = y - of_int f"
  have fm: "\<lfloor>- y\<rfloor> = - f - 1"
    using False by (simp add: floor_minus ceiling_altdef f_def)
  have d: "0 < d" "d < 1" using False unfolding d_def f_def by linarith+
  have dm: "- y - of_int (- f - 1) = 1 - d" by (simp add: d_def)
  have r1: "rne y = (if d < 1 / 2 then f else if 1 / 2 < d then f + 1
                     else if even f then f else f + 1)"
    by (simp add: rne_def Let_def f_def d_def)
  have r2: "rne (- y) = (if 1 - d < 1 / 2 then - f - 1 else if 1 / 2 < 1 - d then - f
                     else if even (- f - 1) then - f - 1 else - f)"
    unfolding rne_def Let_def fm dm by simp
  consider "d < 1 / 2" | "1 / 2 < d" | "d = 1 / 2" by linarith
  then show ?thesis
  proof cases
    case 1
    then show ?thesis unfolding r1 r2 by simp
  next
    case 2
    then show ?thesis unfolding r1 r2 by simp
  next
    case 3
    then show ?thesis unfolding r1 r2 by simp
  qed
qed

lemma ulp_pos: "0 < ulp x"
  by (simp add: ulp_def)

lemma expo_ge: "- 1022 \<le> expo x"
  by (simp add: expo_def)

lemma expo_abs: "expo \<bar>x\<bar> = expo x" and expo_minus: "expo (- x) = expo x"
  by (simp_all add: expo_def)

lemma ulp_minus: "ulp (- x) = ulp x"
  by (simp add: ulp_def expo_minus)

lemma two_powr_int_mono: "(i::int) \<le> j \<Longrightarrow> (2::real) powr of_int i \<le> 2 powr of_int j"
  by (simp add: powr_mono)

lemma log_bounds:
  assumes "0 < x"
  shows "2 powr of_int \<lfloor>log 2 x\<rfloor> \<le> x \<and> x < 2 powr of_int (\<lfloor>log 2 x\<rfloor> + 1)"
  using floor_log_eq_powr_iff[of x 2 "\<lfloor>log 2 x\<rfloor>"] assms by simp

lemma floor_log_less:
  assumes "0 < x" and "x < 2 powr of_int n"
  shows "\<lfloor>log 2 x\<rfloor> < n"
proof (rule ccontr)
  assume "\<not> \<lfloor>log 2 x\<rfloor> < n"
  then have "n \<le> \<lfloor>log 2 x\<rfloor>" by simp
  then have "(2::real) powr of_int n \<le> 2 powr of_int \<lfloor>log 2 x\<rfloor>" by (rule two_powr_int_mono)
  also have "\<dots> \<le> x" using log_bounds[OF assms(1)] by simp
  finally show False using assms(2) by simp
qed

lemma floor_log_ge:
  assumes "0 < x" and "2 powr of_int n \<le> x"
  shows "n \<le> \<lfloor>log 2 x\<rfloor>"
proof (rule ccontr)
  assume "\<not> n \<le> \<lfloor>log 2 x\<rfloor>"
  then have "\<lfloor>log 2 x\<rfloor> + 1 \<le> n" by simp
  then have "(2::real) powr of_int (\<lfloor>log 2 x\<rfloor> + 1) \<le> 2 powr of_int n" by (rule two_powr_int_mono)
  then show False using log_bounds[OF assms(1)] assms(2) by linarith
qed

lemma expo_upper:
  assumes "0 < x"
  shows "x < 2 powr of_int (expo x + 1)"
proof -
  have "x < 2 powr of_int (\<lfloor>log 2 x\<rfloor> + 1)" using log_bounds[OF assms] by simp
  also have "\<dots> \<le> 2 powr of_int (expo x + 1)"
    using assms by (intro two_powr_int_mono) (simp add: expo_def)
  finally show ?thesis .
qed

lemma expo_normal:
  assumes "2 powr of_int (- 1022) \<le> x"
  shows "2 powr of_int (expo x) \<le> x"
proof -
  have x0: "0 < x" by (rule less_le_trans[OF _ assms]) simp
  have "- 1022 \<le> \<lfloor>log 2 x\<rfloor>" using floor_log_ge[OF x0 assms] .
  then have "expo x = \<lfloor>log 2 x\<rfloor>" using x0 by (simp add: expo_def)
  then show ?thesis using log_bounds[OF x0] by simp
qed

lemma expo_le:
  assumes "0 < x" and "x < 2 powr of_int n" and "- 1022 < n"
  shows "expo x \<le> n - 1"
proof -
  have "\<lfloor>log 2 x\<rfloor> < n" using floor_log_less[OF assms(1,2)] .
  then show ?thesis using assms(1,3) by (simp add: expo_def)
qed

lemma expo_mono:
  assumes "0 < x" and "x \<le> y"
  shows "expo x \<le> expo y"
proof -
  have "log 2 x \<le> log 2 y" using assms by (simp add: log_mono)
  then have "\<lfloor>log 2 x\<rfloor> \<le> \<lfloor>log 2 y\<rfloor>" by (rule floor_mono)
  then show ?thesis using assms by (simp add: expo_def)
qed

lemma ulp_times: "ulp x * 2 powr 53 = 2 powr of_int (expo x + 1)"
proof -
  have "ulp x * 2 powr 53 = 2 powr (of_int (expo x - 52) + 53)"
    unfolding ulp_def by (simp only: powr_add)
  then show ?thesis by (simp add: algebra_simps)
qed

lemma ulp_times52: "ulp x * 2 powr 52 = 2 powr of_int (expo x)"
proof -
  have "ulp x * 2 powr 52 = 2 powr (of_int (expo x - 52) + 52)"
    unfolding ulp_def by (simp only: powr_add)
  then show ?thesis by simp
qed

lemma fl_zero: "fl 0 = 0"
  by (simp add: fl_def)

lemma fl_minus: "fl (- x) = - fl x"
  by (simp add: fl_def ulp_minus rne_minus)

lemma fl_nonneg:
  assumes "0 \<le> x"
  shows "0 \<le> fl x"
proof (cases "x = 0")
  case True
  then show ?thesis by (simp add: fl_zero)
next
  case False
  have "0 \<le> x / ulp x" using assms ulp_pos[of x] by simp
  then have "0 \<le> rne (x / ulp x)" using rne_ge_int[of 0 "x / ulp x"] by simp
  then show ?thesis using False ulp_pos[of x] by (simp add: fl_def)
qed

lemma fl_nonpos: "x \<le> 0 \<Longrightarrow> fl x \<le> 0"
  using fl_nonneg[of "- x"] by (simp add: fl_minus)

lemma fl_upper_binade:
  assumes "0 < x"
  shows "fl x \<le> 2 powr of_int (expo x + 1)"
proof -
  have "x / ulp x < 2 powr 53"
    using expo_upper[OF assms] ulp_pos[of x] ulp_times[of x] by (simp add: field_simps)
  then have "x / ulp x \<le> of_int (2 ^ 53)" by simp
  then have "rne (x / ulp x) \<le> 2 ^ 53" by (rule rne_le_int)
  then have "(of_int (rne (x / ulp x)) :: real) \<le> 2 powr 53"
    by (metis of_int_le_iff of_int_numeral of_int_power powr_numeral zero_le_numeral)
  then have "fl x \<le> 2 powr 53 * ulp x"
    using assms ulp_pos[of x] by (simp add: fl_def)
  then show ?thesis using ulp_times[of x] by (simp add: mult.commute)
qed

lemma fl_lower_binade:
  assumes "2 powr of_int (- 1022) \<le> x"
  shows "2 powr of_int (expo x) \<le> fl x"
proof -
  have x0: "0 < x" by (rule less_le_trans[OF _ assms]) simp
  have "2 powr 52 \<le> x / ulp x"
    using expo_normal[OF assms] ulp_pos[of x] ulp_times52[of x] by (simp add: field_simps)
  then have "of_int (2 ^ 52) \<le> x / ulp x" by simp
  then have "2 ^ 52 \<le> rne (x / ulp x)" by (rule rne_ge_int)
  then have "2 powr 52 \<le> (of_int (rne (x / ulp x)) :: real)"
    by (metis of_int_le_iff of_int_numeral of_int_power powr_numeral zero_le_numeral)
  then have "2 powr 52 * ulp x \<le> fl x"
    using x0 ulp_pos[of x] by (simp add: fl_def)
  then show ?thesis using ulp_times52[of x] by (simp add: mult.commute)
qed

lemma fl_mono_pos:
  assumes "0 < x" and "x \<le> y"
  shows "fl x \<le> fl y"
proof (cases "expo x = expo y")
  case True
  then have u: "ulp x = ulp y" by (simp add: ulp_def)
  have "x / ulp y \<le> y / ulp y" using assms(2) ulp_pos[of y] by (simp add: divide_right_mono)
  then have "rne (x / ulp y) \<le> rne (y / ulp y)" by (rule rne_mono)
  then show ?thesis using assms ulp_pos[of y] by (simp add: fl_def u)
next
  case False
  then have lt: "expo x + 1 \<le> expo y" using expo_mono[OF assms] by simp
  have ny: "2 powr of_int (- 1022) \<le> y"
  proof (rule ccontr)
    assume "\<not> 2 powr of_int (- 1022) \<le> y"
    then have "y < 2 powr of_int (- 1022)" by simp
    then have "\<lfloor>log 2 y\<rfloor> < - 1022" using floor_log_less[of y "- 1022"] assms by simp
    then have "expo y = - 1022" using assms by (simp add: expo_def)
    then show False using lt expo_ge[of x] by simp
  qed
  have "fl x \<le> 2 powr of_int (expo x + 1)" using fl_upper_binade[OF assms(1)] .
  also have "\<dots> \<le> 2 powr of_int (expo y)" using lt by (rule two_powr_int_mono)
  also have "\<dots> \<le> fl y" using fl_lower_binade[OF ny] .
  finally show ?thesis .
qed

lemma fl_mono:
  assumes "x \<le> y"
  shows "fl x \<le> fl y"
proof -
  consider "0 < x" | "x \<le> 0 \<and> 0 \<le> y" | "y < 0" using assms by linarith
  then show ?thesis
  proof cases
    case 1
    then show ?thesis using fl_mono_pos assms by blast
  next
    case 2
    then show ?thesis using fl_nonpos[of x] fl_nonneg[of y] by linarith
  next
    case 3
    then have "fl (- y) \<le> fl (- x)" using fl_mono_pos[of "- y" "- x"] assms by simp
    then show ?thesis by (simp add: fl_minus)
  qed
qed

lemma two_powr_nonneg_int: "0 \<le> j \<Longrightarrow> (2::real) powr of_int j = of_int (2 ^ nat j)"
  by (simp add: powr_real_of_int)

lemma fl_exact:
  assumes m: "\<bar>m\<bar> < 2 ^ 53" and k: "- 1074 \<le> k"
  shows "fl (of_int m * 2 powr of_int k) = of_int m * 2 powr of_int k"
proof (cases "m = 0")
  case True
  then show ?thesis by (simp add: fl_zero)
next
  case False
  define p :: real where "p = 2 powr of_int k"
  define x :: real where "x = of_int m * p"
  have p0: "0 < p" by (simp add: p_def)
  have x0: "x \<noteq> 0" using False p0 by (simp add: x_def)
  have ax: "\<bar>x\<bar> = of_int \<bar>m\<bar> * p" using p0 by (simp add: x_def abs_mult)
  have "(of_int \<bar>m\<bar> :: real) < of_int (2 ^ 53)" using m by (simp only: of_int_less_iff)
  then have "(of_int \<bar>m\<bar> :: real) < 2 powr 53" by simp
  then have "\<bar>x\<bar> < 2 powr 53 * p" unfolding ax using p0 by (rule mult_strict_right_mono)
  also have "\<dots> = 2 powr of_int (53 + k)"
    unfolding p_def by (simp only: of_int_add of_int_numeral powr_add)
  finally have lt: "\<bar>x\<bar> < 2 powr of_int (53 + k)" .
  have ax0: "0 < \<bar>x\<bar>" using x0 by simp
  have kk: "- 1022 < 53 + k" using k by simp
  have "expo \<bar>x\<bar> \<le> 53 + k - 1" using ax0 lt kk by (rule expo_le)
  then have e: "expo x \<le> 52 + k" by (simp add: expo_abs)
  define j where "j = k - expo x + 52"
  have j0: "0 \<le> j" using e by (simp add: j_def)
  define u where "u = ulp x"
  have u0: "0 < u" unfolding u_def by (rule ulp_pos)
  have "real_of_int k = of_int j + of_int (expo x - 52)" by (simp add: j_def)
  then have pk: "p = 2 powr of_int j * u"
    unfolding p_def u_def ulp_def by (simp only: powr_add)
  define t :: real where "t = 2 powr of_int j"
  have t: "t = of_int (2 ^ nat j)" unfolding t_def using j0 by (rule two_powr_nonneg_int)
  have "x = of_int m * p" by (rule x_def)
  also have "\<dots> = of_int m * (t * u)" using pk by (simp only: t_def)
  finally have xe: "x = of_int m * t * u" by simp
  have "x / u = of_int m * t" using u0 by (simp add: xe)
  also have "\<dots> = of_int (m * 2 ^ nat j)" by (simp only: t of_int_mult)
  finally have q: "x / u = of_int (m * 2 ^ nat j)" .
  have "fl x = of_int (rne (x / u)) * u" using x0 by (simp add: fl_def u_def)
  also have "\<dots> = of_int (m * 2 ^ nat j) * u" by (simp only: q rne_of_int)
  also have "\<dots> = of_int m * t * u" by (simp only: t of_int_mult)
  also have "\<dots> = x" by (simp only: xe[symmetric])
  finally show ?thesis by (simp only: x_def p_def)
qed

lemma two_powr_neg: "(2::real) powr of_int (- int n) = 1 / 2 ^ n"
proof -
  have "(2::real) powr of_int (- int n) = 2 powr (- real n)" by simp
  also have "\<dots> = inverse (2 powr real n)" by (rule powr_minus)
  also have "\<dots> = inverse (2 ^ n)" by (simp only: powr_realpow[OF zero_less_numeral])
  finally show ?thesis by (simp only: inverse_eq_divide)
qed

lemma fl_int:
  assumes "\<bar>m\<bar> < 2 ^ 53"
  shows "fl (of_int m) = of_int m"
  using fl_exact[OF assms, of 0] by simp

lemma fl_dyadic:
  assumes "\<bar>m\<bar> < 2 ^ 53" and "n \<le> 1074"
  shows "fl (of_int m / 2 ^ n) = of_int m / 2 ^ n"
proof -
  have k: "- 1074 \<le> - int n" using assms(2) by simp
  have "fl (of_int m * (1 / 2 ^ n)) = of_int m * (1 / 2 ^ n)"
    using fl_exact[OF assms(1) k] by (simp only: two_powr_neg)
  then show ?thesis by simp
qed

lemma fl_error:
  "\<bar>fl x - x\<bar> \<le> ulp x / 2"
proof (cases "x = 0")
  case True
  then show ?thesis using ulp_pos[of x] by (simp add: fl_zero)
next
  case False
  have "fl x - x = (of_int (rne (x / ulp x)) - x / ulp x) * ulp x"
    using False ulp_pos[of x] by (simp add: fl_def field_simps)
  then have "\<bar>fl x - x\<bar> = \<bar>of_int (rne (x / ulp x)) - x / ulp x\<bar> * ulp x"
    using ulp_pos[of x] by (simp add: abs_mult)
  also have "\<dots> \<le> (1 / 2) * ulp x"
    using rne_error[of "x / ulp x"] ulp_pos[of x] by (intro mult_right_mono) simp_all
  finally show ?thesis by simp
qed

lemma ulp_below:
  assumes "0 < x" and "x < 2 powr of_int n" and "- 1022 < n"
  shows "ulp x \<le> 2 powr of_int (n - 53)"
proof -
  have "expo x - 52 \<le> n - 53" using expo_le[OF assms] by simp
  then show ?thesis unfolding ulp_def by (rule two_powr_int_mono)
qed

lemma ulp_normal:
  assumes "2 powr of_int (- 1022) \<le> x"
  shows "ulp x \<le> x / 2 ^ 52"
proof -
  have "ulp x * 2 powr 52 \<le> x" using ulp_times52[of x] expo_normal[OF assms] by simp
  then show ?thesis by (simp add: field_simps)
qed

text \<open>Relative error of rounding a number of ordinary size.\<close>

lemma fl_rel_error:
  assumes "1 / 2 ^ 1000 \<le> x"
  shows "\<bar>fl x - x\<bar> \<le> x / 2 ^ 53"
proof -
  have a: "(2::real) powr of_int (- 1022) \<le> 2 powr of_int (- int 1000)"
    by (rule two_powr_int_mono) simp
  have b: "(2::real) powr of_int (- int 1000) = 1 / 2 ^ 1000" by (rule two_powr_neg)
  have n: "2 powr of_int (- 1022) \<le> x"
    by (rule order_trans[OF a]) (simp only: b assms)
  have "\<bar>fl x - x\<bar> \<le> ulp x / 2" by (rule fl_error)
  also have "\<dots> \<le> (x / 2 ^ 52) / 2" using ulp_normal[OF n] by simp
  finally show ?thesis by simp
qed

lemma expo_eq:
  assumes "2 powr of_int n \<le> x" and "x < 2 powr of_int (n + 1)" and "- 1022 \<le> n"
  shows "expo x = n"
proof -
  have x0: "0 < x" by (rule less_le_trans[OF _ assms(1)]) simp
  have "n \<le> \<lfloor>log 2 x\<rfloor>" using floor_log_ge[OF x0 assms(1)] .
  moreover have "\<lfloor>log 2 x\<rfloor> < n + 1" using floor_log_less[OF x0 assms(2)] .
  ultimately have "\<lfloor>log 2 x\<rfloor> = n" by simp
  then show ?thesis using assms(3) x0 by (simp add: expo_def)
qed

lemma ulp_abs: "ulp \<bar>x\<bar> = ulp x"
  by (simp add: ulp_def expo_abs)

lemma ulp_abs_below:
  assumes "x \<noteq> 0" and "\<bar>x\<bar> < 2 powr of_int n" and "- 1022 < n"
  shows "ulp x \<le> 2 powr of_int (n - 53)"
proof -
  have "0 < \<bar>x\<bar>" using assms(1) by simp
  from ulp_below[OF this assms(2,3)] show ?thesis by (simp only: ulp_abs)
qed

lemma eps_bounds: "1 / 2 ^ 10 \<le> fl 0.001 \<and> fl 0.001 \<le> 1 / 2 ^ 9"
proof -
  have a: "fl (1 / 2 ^ 10) = 1 / 2 ^ 10" using fl_dyadic[of 1 10] by simp
  have b: "fl (1 / 2 ^ 9) = 1 / 2 ^ 9" using fl_dyadic[of 1 9] by simp
  have "fl (1 / 2 ^ 10) \<le> fl 0.001" by (rule fl_mono) simp
  moreover have "fl 0.001 \<le> fl (1 / 2 ^ 9)" by (rule fl_mono) simp
  ultimately show ?thesis by (simp only: a b)
qed

lemma upper_clamp_below:
  assumes "0 \<le> w" and "w \<le> 2 ^ 41"
  shows "fl (w - fl 0.001) \<le> w - 7 / 2 ^ 13"
proof -
  define e where "e = fl 0.001"
  define t where "t = w - e"
  have e: "1 / 2 ^ 10 \<le> e" "e \<le> 1 / 2 ^ 9" using eps_bounds by (simp_all add: e_def)
  have "fl t \<le> t + 1 / 2 ^ 13"
  proof (cases "t = 0")
    case True
    then show ?thesis by (simp add: fl_zero)
  next
    case False
    have "\<bar>t\<bar> < 2 ^ 41" using assms e by (simp add: t_def abs_if)
    also have "(2::real) ^ 41 = 2 powr of_int 41" by simp
    finally have "ulp t \<le> 2 powr of_int (41 - 53)" by (rule ulp_abs_below[OF False]) simp
    also have "(2::real) powr of_int (41 - 53) = 1 / 2 ^ 12" using two_powr_neg[of 12] by simp
    finally have u: "ulp t \<le> 1 / 2 ^ 12" .
    have "fl t - t \<le> ulp t / 2" using fl_error[of t] by linarith
    then show ?thesis using u by simp
  qed
  also have "\<dots> \<le> w - 7 / 2 ^ 13" using e by (simp add: t_def)
  finally show ?thesis by (simp add: t_def e_def)
qed

lemma rounded_quotient_below:
  fixes cs w a y :: real
  assumes cs: "0 < cs" "cs \<le> 2 ^ 400" and w: "1 / 2 ^ 400 \<le> w" "w \<le> 2 ^ 41"
    and a: "a \<le> w - 7 / 2 ^ 13" and y: "y \<le> max 0 a / cs"
  shows "fl y < fl (w / cs)"
proof -
  define Q where "Q = w / cs"
  define u where "u = (1::real) / 2 ^ 53"
  define y1 where "y1 = max 0 a / cs"
  have u0: "0 < u" by (simp add: u_def)
  have "1 / 2 ^ 800 * cs \<le> 1 / 2 ^ 800 * 2 ^ 400" using cs(2) by (intro mult_left_mono) simp_all
  also have "\<dots> = 1 / 2 ^ 400" by simp
  finally have "1 / 2 ^ 800 * cs \<le> w" using w(1) by simp
  then have Q800: "1 / 2 ^ 800 \<le> Q" using cs(1) by (simp add: Q_def field_simps)
  have "(1::real) / 2 ^ 1000 \<le> 1 / 2 ^ 800" by simp
  then have Q1000: "1 / 2 ^ 1000 \<le> Q" using Q800 by (rule order_trans)
  have w0: "0 < w" by (rule less_le_trans[OF _ w(1)]) simp
  have Q0: "0 < Q" using cs(1) w0 by (simp add: Q_def)
  have "Q - fl Q \<le> Q / 2 ^ 53" using fl_rel_error[OF Q1000] by linarith
  then have B: "Q - Q * u \<le> fl Q" by (simp add: u_def)
  have f800: "fl (1 / 2 ^ 800) = 1 / 2 ^ 800" using fl_dyadic[of 1 800] by simp
  have f1000: "fl (1 / 2 ^ 1000) = 1 / 2 ^ 1000" using fl_dyadic[of 1 1000] by simp
  have "fl (1 / 2 ^ 800) \<le> fl Q" using Q800 by (rule fl_mono)
  then have B800: "1 / 2 ^ 800 \<le> fl Q" by (simp only: f800)
  have yy: "fl y \<le> fl y1" using y unfolding y1_def by (rule fl_mono)
  have "fl y1 < fl Q"
  proof (cases "y1 < 1 / 2 ^ 1000")
    case True
    then have "fl y1 \<le> fl (1 / 2 ^ 1000)" by (intro fl_mono) simp
    then have "fl y1 \<le> 1 / 2 ^ 1000" by (simp only: f1000)
    also have "(1::real) / 2 ^ 1000 < 1 / 2 ^ 800" by simp
    finally show ?thesis using B800 by simp
  next
    case False
    then have y1000: "1 / 2 ^ 1000 \<le> y1" by simp
    then have y0: "0 < y1" by (rule less_le_trans[rotated]) simp
    then have a0: "0 < a" using cs(1) by (simp add: y1_def max_def zero_less_divide_iff split: if_splits)
    then have ya: "y1 = a / cs" by (simp add: y1_def max_def)
    have "w * (7 / 2 ^ 54) \<le> 2 ^ 41 * (7 / 2 ^ 54)" using w(2) by (intro mult_right_mono) simp_all
    then have "w * (7 / 2 ^ 54) \<le> 7 / 2 ^ 13" by simp
    then have "a \<le> w - w * (7 / 2 ^ 54)" using a by simp
    then have "a / cs \<le> (w - w * (7 / 2 ^ 54)) / cs" using cs(1) by (intro divide_right_mono) simp_all
    also have "\<dots> = Q - 7 / 2 * (Q * u)" by (simp add: Q_def u_def field_simps)
    finally have C: "y1 \<le> Q - 7 / 2 * (Q * u)" by (simp only: ya)
    have qu: "0 < Q * u" using Q0 u0 by simp
    have "y1 \<le> Q" using C qu by simp
    then have D: "y1 * u \<le> Q * u" using u0 by (intro mult_right_mono) simp_all
    have "fl y1 - y1 \<le> y1 / 2 ^ 53" using fl_rel_error[OF y1000] by linarith
    then have "fl y1 \<le> y1 + y1 * u" by (simp add: u_def)
    then show ?thesis using B C D qu by linarith
  qed
  then show ?thesis using yy unfolding Q_def by simp
qed

lemma cellCoordinate_range:
  assumes "0 < cs" and "cs \<le> 2 ^ 400" and "1 / 2 ^ 400 \<le> w" and "w \<le> 2 ^ 41"
  shows "0 \<le> cellCoordinate cs w v \<and> cellCoordinate cs w v < \<lceil>fl (w / cs)\<rceil>"
proof -
  define a where "a = fl (w - fl 0.001)"
  define y where "y = max 0 (min v a) / cs"
  have w0: "0 \<le> w" using assms(3) by (rule order_trans[rotated]) simp
  have a: "a \<le> w - 7 / 2 ^ 13" unfolding a_def using upper_clamp_below[OF w0 assms(4)] .
  have "max 0 (min v a) \<le> max 0 a" by (simp add: max_def min_def)
  then have y: "y \<le> max 0 a / cs" unfolding y_def using assms(1) by (intro divide_right_mono) simp_all
  have "0 \<le> y" using assms(1) by (simp add: y_def)
  then have "0 \<le> fl y" by (rule fl_nonneg)
  then have lo: "0 \<le> \<lfloor>fl y\<rfloor>" by simp
  have "fl y < fl (w / cs)" using rounded_quotient_below[OF assms a y] .
  also have "\<dots> \<le> of_int \<lceil>fl (w / cs)\<rceil>" by (rule le_of_int_ceiling)
  finally have hi: "\<lfloor>fl y\<rfloor> < \<lceil>fl (w / cs)\<rceil>" by (simp only: floor_less_iff)
  show ?thesis using lo hi by (simp add: cellCoordinate_def y_def a_def)
qed

lemma flat_index_range:
  fixes a b nx nz :: int
  assumes "0 \<le> a" and "a < nx" and "0 \<le> b" and "b < nz"
  shows "0 \<le> a + b * nx \<and> a + b * nx < nx * nz"
proof -
  have nx0: "0 < nx" using assms by simp
  have "0 \<le> b * nx" using assms(3) nx0 by simp
  then have lo: "0 \<le> a + b * nx" using assms(1) by simp
  have "b + 1 \<le> nz" using assms(4) by simp
  then have "(b + 1) * nx \<le> nz * nx" using nx0 by (simp add: mult_right_mono)
  then have "a + b * nx < nz * nx" using assms(2) by (simp add: algebra_simps)
  then show ?thesis using lo by (simp add: mult.commute)
qed

lemma flat_index_exact:
  fixes a b nx :: int
  assumes "\<bar>b * nx\<bar> < 2 ^ 53" and "\<bar>a + b * nx\<bar> < 2 ^ 53"
  shows "\<lfloor>fl (of_int a + fl (of_int b * of_int nx))\<rfloor> = a + b * nx"
proof -
  have "fl (of_int b * of_int nx) = fl (of_int (b * nx))" by simp
  also have "\<dots> = of_int (b * nx)" using assms(1) by (rule fl_int)
  finally have p: "fl (of_int b * of_int nx) = of_int (b * nx)" .
  have "fl (of_int a + of_int (b * nx)) = fl (of_int (a + b * nx))" by simp
  also have "\<dots> = of_int (a + b * nx)" using assms(2) by (rule fl_int)
  finally show ?thesis by (simp only: p floor_of_int)
qed

lemma getCellIndex_cellCoordinate:
  "getCellIndex g x z =
     \<lfloor>fl (of_int (cellCoordinate (cellSize g) (worldSizeX g) x)
           + fl (of_int (cellCoordinate (cellSize g) (worldSizeZ g) z) * of_int (numCellsX g)))\<rfloor>"
  by (simp add: getCellIndex_def cellCoordinate_def Let_def)

lemma getCellIndex_eval:
  assumes "cellCoordinate (cellSize g) (worldSizeX g) x = a"
    and "cellCoordinate (cellSize g) (worldSizeZ g) z = b"
    and "\<bar>b * numCellsX g\<bar> < 2 ^ 53" and "\<bar>a + b * numCellsX g\<bar> < 2 ^ 53"
  shows "getCellIndex g x z = a + b * numCellsX g"
  unfolding getCellIndex_cellCoordinate assms(1,2) using assms(3,4) by (rule flat_index_exact)

lemma getCellIndex_wellFormed:
  assumes "wellFormed g"
  shows "getCellIndex g x z
           = cellCoordinate (cellSize g) (worldSizeX g) x
             + cellCoordinate (cellSize g) (worldSizeZ g) z * numCellsX g
       \<and> 0 \<le> getCellIndex g x z \<and> getCellIndex g x z < int (length (cells g))"
proof -
  define a where "a = cellCoordinate (cellSize g) (worldSizeX g) x"
  define b where "b = cellCoordinate (cellSize g) (worldSizeZ g) z"
  have cs: "0 < cellSize g" "cellSize g \<le> 2 ^ 400"
    and wx: "1 / 2 ^ 400 \<le> worldSizeX g" "worldSizeX g \<le> 2 ^ 41"
    and wz: "1 / 2 ^ 400 \<le> worldSizeZ g" "worldSizeZ g \<le> 2 ^ 41"
    and nx: "numCellsX g = \<lceil>fl (worldSizeX g / cellSize g)\<rceil>"
    and nz: "numCellsZ g = \<lceil>fl (worldSizeZ g / cellSize g)\<rceil>"
    and len: "int (length (cells g)) = numCellsX g * numCellsZ g"
    and bound: "numCellsX g * numCellsZ g \<le> 4294967295"
    using assms unfolding wellFormed_def ordinarySizes_def by blast+
  have ra: "0 \<le> a \<and> a < numCellsX g"
    unfolding a_def nx using cellCoordinate_range[OF cs wx] .
  have rb: "0 \<le> b \<and> b < numCellsZ g"
    unfolding b_def nz using cellCoordinate_range[OF cs wz] .
  have r: "0 \<le> a + b * numCellsX g \<and> a + b * numCellsX g < numCellsX g * numCellsZ g"
    using flat_index_range ra rb by blast
  have "0 \<le> b * numCellsX g" using ra rb by simp
  moreover have "b * numCellsX g \<le> a + b * numCellsX g" using ra by simp
  ultimately have s: "\<bar>b * numCellsX g\<bar> < 2 ^ 53" "\<bar>a + b * numCellsX g\<bar> < 2 ^ 53"
    using r bound by simp_all
  have "getCellIndex g x z = a + b * numCellsX g"
    using getCellIndex_eval[OF a_def[symmetric] b_def[symmetric] s] .
  then show ?thesis using r len by (simp add: a_def b_def)
qed

lemma fl_numeral:
  assumes "(numeral n :: int) < 2 ^ 53"
  shows "fl (numeral n) = numeral n"
  using fl_int[of "numeral n"] assms by simp

lemma floor_fl:
  assumes "of_int k \<le> y" and "y \<le> of_int k + 1 - 1 / 2 ^ 20" and "\<bar>k\<bar> < 2 ^ 30"
  shows "\<lfloor>fl y\<rfloor> = k"
proof -
  define m where "m = (k + 1) * 2 ^ 20 - 1"
  have "\<bar>k\<bar> < 2 ^ 53" using assms(3) by simp
  then have lo: "fl (of_int k) = of_int k" by (rule fl_int)
  have "\<bar>m\<bar> < 2 ^ 53" using assms(3) by (simp add: m_def abs_if split: if_splits)
  then have d: "fl (of_int m / 2 ^ 20) = of_int m / 2 ^ 20" by (rule fl_dyadic) simp
  have e: "(of_int m :: real) / 2 ^ 20 = of_int k + 1 - 1 / 2 ^ 20"
    by (simp add: m_def field_simps)
  have hi: "fl (of_int k + 1 - 1 / 2 ^ 20) = of_int k + 1 - 1 / 2 ^ 20"
    using d by (simp only: e)
  have "fl (of_int k) \<le> fl y" using assms(1) by (rule fl_mono)
  then have a: "of_int k \<le> fl y" by (simp only: lo)
  have "fl y \<le> fl (of_int k + 1 - 1 / 2 ^ 20)" using assms(2) by (rule fl_mono)
  then have "fl y \<le> of_int k + 1 - 1 / 2 ^ 20" by (simp only: hi)
  then have b: "fl y < of_int k + 1" by simp
  show ?thesis using a b by (simp add: floor_unique)
qed

lemma upper_clamp_bounds:
  assumes "fl (w - 1 / 2 ^ 9) = w - 1 / 2 ^ 9" and "fl (w - 1 / 2 ^ 10) = w - 1 / 2 ^ 10"
  shows "w - 1 / 2 ^ 9 \<le> fl (w - fl 0.001) \<and> fl (w - fl 0.001) \<le> w - 1 / 2 ^ 10"
proof -
  have "fl (w - 1 / 2 ^ 9) \<le> fl (w - fl 0.001)" using eps_bounds by (intro fl_mono) simp
  moreover have "fl (w - fl 0.001) \<le> fl (w - 1 / 2 ^ 10)" using eps_bounds by (intro fl_mono) simp
  ultimately show ?thesis by (simp only: assms)
qed

lemma cellCoordinate_eval:
  assumes "lo \<le> fl (w - fl 0.001) \<and> fl (w - fl 0.001) \<le> hi" and "0 < cs"
    and "of_int k \<le> max 0 (min v lo) / cs"
    and "max 0 (min v hi) / cs \<le> of_int k + 1 - 1 / 2 ^ 20" and "\<bar>k\<bar> < 2 ^ 30"
  shows "cellCoordinate cs w v = k"
proof -
  define a where "a = fl (w - fl 0.001)"
  have a: "lo \<le> a" "a \<le> hi" using assms(1) by (simp_all add: a_def)
  have "max 0 (min v lo) \<le> max 0 (min v a)" using a(1) by (simp add: max_def min_def)
  then have "max 0 (min v lo) / cs \<le> max 0 (min v a) / cs"
    using assms(2) by (intro divide_right_mono) simp_all
  then have l: "of_int k \<le> max 0 (min v a) / cs" using assms(3) by simp
  have "max 0 (min v a) \<le> max 0 (min v hi)" using a(2) by (simp add: max_def min_def)
  then have "max 0 (min v a) / cs \<le> max 0 (min v hi) / cs"
    using assms(2) by (intro divide_right_mono) simp_all
  then have h: "max 0 (min v a) / cs \<le> of_int k + 1 - 1 / 2 ^ 20" using assms(4) by simp
  show ?thesis unfolding cellCoordinate_def a_def[symmetric] using l h assms(5) by (rule floor_fl)
qed

section \<open>The grid: construction\<close>

lemma maxDouble_large: "2 ^ 53 \<le> maxDouble"
proof -
  have "(2::real) ^ 53 \<le> 1 * 2 ^ 971" by simp
  also have "\<dots> \<le> (2 ^ 53 - 1) * 2 ^ 971" by (intro mult_right_mono) simp_all
  finally show ?thesis by (simp only: maxDouble_def)
qed

lemma finite_count: "numeral n \<le> (2::real) ^ 53 \<Longrightarrow> \<not> maxDouble < numeral n"
  using maxDouble_large by linarith

lemma SpatialHashGrid_Inr:
  assumes "SpatialHashGrid cs wx wz = Inr g"
  shows "g = \<lparr>cellSize = cs, worldSizeX = wx, worldSizeZ = wz,
              numCellsX = \<lceil>fl (wx / cs)\<rceil>, numCellsZ = \<lceil>fl (wz / cs)\<rceil>,
              cells = replicate (nat (\<lceil>fl (wx / cs)\<rceil> * \<lceil>fl (wz / cs)\<rceil>)) [],
              objectCells = []\<rparr>
       \<and> 0 \<le> \<lceil>fl (wx / cs)\<rceil> * \<lceil>fl (wz / cs)\<rceil>
       \<and> \<lceil>fl (wx / cs)\<rceil> * \<lceil>fl (wz / cs)\<rceil> \<le> 4294967295"
  using assms by (simp add: SpatialHashGrid_def Let_def split: if_splits)

lemma grid20_constructed: "SpatialHashGrid 5 20 20 = Inr grid20"
  by (simp add: SpatialHashGrid_def grid20_def fl_numeral finite_count)

lemma wellFormed_constructed:
  assumes "SpatialHashGrid cs wx wz = Inr g" and "ordinarySizes cs wx wz"
  shows "wellFormed g"
  using SpatialHashGrid_Inr[OF assms(1)] assms(2) by (simp add: wellFormed_def)

lemma exclusive_constructed:
  assumes "SpatialHashGrid cs wx wz = Inr g"
  shows "exclusiveMembership g"
  using SpatialHashGrid_Inr[OF assms] by (simp add: exclusiveMembership_def)

section \<open>The grid: cell lookup\<close>

lemma clamp20: "20 - 1 / 2 ^ 9 \<le> fl (20 - fl 0.001) \<and> fl (20 - fl 0.001) \<le> 20 - 1 / 2 ^ 10"
proof (rule upper_clamp_bounds)
  show "fl (20 - 1 / 2 ^ 9) = 20 - 1 / 2 ^ 9" using fl_dyadic[of 10239 9] by simp
  show "fl (20 - 1 / 2 ^ 10) = 20 - 1 / 2 ^ 10" using fl_dyadic[of 20479 10] by simp
qed

lemma cellCoordinate20:
  "cellCoordinate 5 20 0 = 0" "cellCoordinate 5 20 1 = 0" "cellCoordinate 5 20 2 = 0"
  "cellCoordinate 5 20 7 = 1" "cellCoordinate 5 20 12 = 2" "cellCoordinate 5 20 25 = 3"
  "cellCoordinate 5 20 (- 3) = 0"
  by (rule cellCoordinate_eval[OF clamp20]; simp)+

lemma getCellIndex20:
  "getCellIndex \<lparr>cellSize = 5, worldSizeX = 20, worldSizeZ = 20, numCellsX = 4, numCellsZ = nz,
                 cells = c, objectCells = m\<rparr> x z
     = cellCoordinate 5 20 x + cellCoordinate 5 20 z * 4"
proof -
  have q: "\<lceil>fl (20 / 5)\<rceil> = 4" by (simp add: fl_numeral)
  have rx: "0 \<le> cellCoordinate 5 20 x \<and> cellCoordinate 5 20 x < 4"
    using cellCoordinate_range[of 5 20 x] by (simp only: q) simp
  have rz: "0 \<le> cellCoordinate 5 20 z \<and> cellCoordinate 5 20 z < 4"
    using cellCoordinate_range[of 5 20 z] by (simp only: q) simp
  let ?g = "\<lparr>cellSize = 5, worldSizeX = 20, worldSizeZ = 20, numCellsX = 4, numCellsZ = nz,
              cells = c, objectCells = m\<rparr>"
  have "getCellIndex ?g x z = cellCoordinate 5 20 x + cellCoordinate 5 20 z * numCellsX ?g"
  proof (rule getCellIndex_eval)
    show "cellCoordinate (cellSize ?g) (worldSizeX ?g) x = cellCoordinate 5 20 x" by simp
    show "cellCoordinate (cellSize ?g) (worldSizeZ ?g) z = cellCoordinate 5 20 z" by simp
    show "\<bar>cellCoordinate 5 20 z * numCellsX ?g\<bar> < 2 ^ 53" using rz by simp
    show "\<bar>cellCoordinate 5 20 x + cellCoordinate 5 20 z * numCellsX ?g\<bar> < 2 ^ 53"
      using rx rz by simp
  qed
  then show ?thesis by simp
qed

lemma fl_binade:
  assumes "2 ^ k \<le> x" and "x < 2 ^ (k + 1)" and "k \<le> 52"
    and "\<bar>x * 2 ^ (52 - k) - of_int m\<bar> < 1 / 2"
  shows "fl x = of_int m / 2 ^ (52 - k)"
proof -
  have p1: "(2::real) powr of_int (int k) = 2 ^ k"
    using powr_realpow[of 2 k] by simp
  have p2: "(2::real) powr of_int (int k + 1) = 2 ^ (k + 1)"
    using powr_realpow[of 2 "k + 1"] by (simp add: add.commute)
  have e1: "2 powr of_int (int k) \<le> x" unfolding p1 by (rule assms(1))
  have e2: "x < 2 powr of_int (int k + 1)" unfolding p2 by (rule assms(2))
  have "expo x = int k" using e1 e2 by (rule expo_eq) simp
  then have "ulp x = 2 powr of_int (- int (52 - k))"
    using assms(3) by (simp add: ulp_def)
  then have u: "ulp x = 1 / 2 ^ (52 - k)" by (simp only: two_powr_neg)
  have "0 < x" by (rule less_le_trans[OF _ assms(1)]) simp
  then have x0: "x \<noteq> 0" by simp
  have "x / ulp x = x * 2 ^ (52 - k)" by (simp add: u)
  then have "rne (x / ulp x) = m" using assms(4) by (intro rne_near) simp
  then show ?thesis using x0 by (simp add: fl_def u)
qed

lemma clampHuge: "fl (100000000000000 - fl 0.001) = 100000000000000"
proof -
  have lo: "fl (100000000000000 - 1 / 2 ^ 9) = 100000000000000"
    using fl_binade[of 46 "100000000000000 - 1 / 2 ^ 9" 6400000000000000] by simp
  have hi: "fl 100000000000000 = 100000000000000" by (simp add: fl_numeral)
  have "fl (100000000000000 - 1 / 2 ^ 9) \<le> fl (100000000000000 - fl 0.001)"
    using eps_bounds by (intro fl_mono) simp
  moreover have "fl (100000000000000 - fl 0.001) \<le> fl 100000000000000"
    using eps_bounds by (intro fl_mono) simp
  ultimately show ?thesis by (simp only: lo hi)
qed

lemma cellCoordinateHuge:
  "cellCoordinate 10000000000000 100000000000000 200000000000000 = 10"
  "cellCoordinate 10000000000000 100000000000000 95000000000000 = 9"
proof -
  show "cellCoordinate 10000000000000 100000000000000 200000000000000 = 10"
    unfolding cellCoordinate_def clampHuge by (simp add: fl_numeral)
  have "\<lfloor>fl (95000000000000 / 10000000000000)\<rfloor> = 9"
    by (rule floor_fl) simp_all
  then show "cellCoordinate 10000000000000 100000000000000 95000000000000 = 9"
    unfolding cellCoordinate_def clampHuge by simp
qed

lemma gridHuge_constructed:
  "SpatialHashGrid 10000000000000 100000000000000 100000000000000 = Inr gridHuge"
  by (simp add: SpatialHashGrid_def gridHuge_def fl_numeral finite_count)

lemma getCellIndexHuge:
  "getCellIndex gridHuge 200000000000000 200000000000000 = 110"
  "getCellIndex gridHuge 95000000000000 95000000000000 = 99"
proof -
  have "getCellIndex gridHuge 200000000000000 200000000000000 = 10 + 10 * numCellsX gridHuge"
    by (rule getCellIndex_eval) (simp_all add: gridHuge_def cellCoordinateHuge)
  then show "getCellIndex gridHuge 200000000000000 200000000000000 = 110"
    by (simp add: gridHuge_def)
  have "getCellIndex gridHuge 95000000000000 95000000000000 = 9 + 9 * numCellsX gridHuge"
    by (rule getCellIndex_eval) (simp_all add: gridHuge_def cellCoordinateHuge)
  then show "getCellIndex gridHuge 95000000000000 95000000000000 = 99"
    by (simp add: gridHuge_def)
qed

lemma insertObjectHuge:
  "cellAt gridHuge (getCellIndex gridHuge 200000000000000 200000000000000) = None"
  "insertObject gridHuge ob (Vector3 200000000000000 0 200000000000000) = Inl TypeError"
proof -
  have len: "length (cells gridHuge) = 100" by (simp add: gridHuge_def)
  show none: "cellAt gridHuge (getCellIndex gridHuge 200000000000000 200000000000000) = None"
    by (simp add: cellAt_def getCellIndexHuge len)
  show "insertObject gridHuge ob (Vector3 200000000000000 0 200000000000000) = Inl TypeError"
    by (simp add: insertObject_def none)
qed

lemma clamp_nearest:
  fixes x x' w a :: real
  assumes "a < w" and "x < 0 \<longrightarrow> x' = 0"
    and "0 \<le> x \<and> x < w \<longrightarrow> x' = x" and "w \<le> x \<longrightarrow> a \<le> x'"
  shows "max 0 (min x a) = max 0 (min x' a)"
proof -
  consider "x < 0" | "0 \<le> x \<and> x < w" | "w \<le> x" by linarith
  then show ?thesis
  proof cases
    case 1
    then have "x' = 0" using assms(2) by simp
    then show ?thesis using 1 by (simp add: max_def min_def)
  next
    case 2
    then show ?thesis using assms(3) by simp
  next
    case 3
    then have "min x a = a" "min x' a = a"
      using assms(1,4) by (simp_all add: min_def)
    then show ?thesis by simp
  qed
qed

text \<open>
  With sizes of ordinary magnitude the lookup clamps: a point outside
  \<open>[0, worldSizeX) \<times> [0, worldSizeZ)\<close> gets the cell index of the nearest in-bounds point
  \<open>(x', z')\<close>, where a coordinate below 0 goes to 0, a coordinate inside the world stays, and
  a coordinate at or beyond the world size goes to any in-bounds coordinate that is not
  below the rounded difference of the world size and 0.001. The index is an index of the
  cell array.
\<close>

lemma getCellIndex_clamps_ordinary:
  assumes "wellFormed g"
    and "x < 0 \<longrightarrow> x' = 0" and "0 \<le> x \<and> x < worldSizeX g \<longrightarrow> x' = x"
    and "worldSizeX g \<le> x \<longrightarrow> fl (worldSizeX g - fl 0.001) \<le> x'"
    and "z < 0 \<longrightarrow> z' = 0" and "0 \<le> z \<and> z < worldSizeZ g \<longrightarrow> z' = z"
    and "worldSizeZ g \<le> z \<longrightarrow> fl (worldSizeZ g - fl 0.001) \<le> z'"
  shows "getCellIndex g x z = getCellIndex g x' z'
       \<and> 0 \<le> getCellIndex g x z \<and> getCellIndex g x z < int (length (cells g))"
proof -
  have wx: "0 \<le> worldSizeX g" "worldSizeX g \<le> 2 ^ 41"
    and wz: "0 \<le> worldSizeZ g" "worldSizeZ g \<le> 2 ^ 41"
    using assms(1) unfolding wellFormed_def ordinarySizes_def
    by (auto intro: order_trans[of 0 "1 / 2 ^ 400"])
  have ax: "fl (worldSizeX g - fl 0.001) < worldSizeX g"
    using upper_clamp_below[OF wx] by simp
  have az: "fl (worldSizeZ g - fl 0.001) < worldSizeZ g"
    using upper_clamp_below[OF wz] by simp
  have ex: "max 0 (min x (fl (worldSizeX g - fl 0.001)))
            = max 0 (min x' (fl (worldSizeX g - fl 0.001)))"
    using ax assms(2-4) by (rule clamp_nearest)
  have ez: "max 0 (min z (fl (worldSizeZ g - fl 0.001)))
            = max 0 (min z' (fl (worldSizeZ g - fl 0.001)))"
    using az assms(5-7) by (rule clamp_nearest)
  have "getCellIndex g x z = getCellIndex g x' z'"
    unfolding getCellIndex_def ex ez ..
  then show ?thesis using getCellIndex_wellFormed[OF assms(1), of x z] by simp
qed

text \<open>
  C7 (clamping of cell lookup). The lookup does not clamp on a grid whose world size is
  so large that subtracting 0.001 from it gives the world size again, which is so from
  about \<open>1.8e13\<close>. The constructor builds the grid of cell size \<open>1e13\<close> over a world of
  \<open>1e14\<close> by \<open>1e14\<close> with 100 cells. The in-bounds point \<open>(9.5e13, 9.5e13)\<close> is in
  cell 99, the last one. The point \<open>(2e14, 2e14)\<close>, which lies outside the world, gets
  the index 110: there is no such cell, and \<open>insertObject\<close> at that point throws.
\<close>

theorem getCellIndex_huge_grid:
  "SpatialHashGrid 10000000000000 100000000000000 100000000000000 = Inr gridHuge
   \<and> length (cells gridHuge) = 100
   \<and> getCellIndex gridHuge 95000000000000 95000000000000 = 99
   \<and> getCellIndex gridHuge 200000000000000 200000000000000 = 110
   \<and> cellAt gridHuge (getCellIndex gridHuge 200000000000000 200000000000000) = None
   \<and> insertObject gridHuge 1 (Vector3 200000000000000 0 200000000000000) = Inl TypeError"
proof -
  have len: "length (cells gridHuge) = 100" by (simp add: gridHuge_def)
  show ?thesis using gridHuge_constructed len getCellIndexHuge insertObjectHuge by simp
qed

section \<open>The grid: update\<close>

text \<open>
  C9 (update equivalence). \<open>updateObject\<close> leaves the grid in the state that
  \<open>removeObject\<close> followed by \<open>insertObject\<close> leaves it in, and fails where that sequence
  fails; on an object that is not tracked it is a plain \<open>insertObject\<close>.
\<close>

theorem updateObject_equiv:
  "updateObject g ob p =
     (case removeObject g ob of Inl e \<Rightarrow> Inl e | Inr g' \<Rightarrow> insertObject g' ob p)
   \<and> (map_of (objectCells g) ob = None \<longrightarrow> updateObject g ob p = insertObject g ob p)"
  by (simp add: updateObject_def removeObject_def)

theorem updateObject_equiv_witness:
  "map_of (objectCells grid20) 7 = None
   \<and> updateObject grid20 7 (Vector3 2 0 2) = insertObject grid20 7 (Vector3 2 0 2)"
proof -
  have untracked: "map_of (objectCells grid20) 7 = None"
    by (simp add: grid20_def)
  then show ?thesis
    using updateObject_equiv[of grid20 7 "Vector3 2 0 2"] by blast
qed

section \<open>The resolver without a player collider\<close>

text \<open>
  C6 (pass-through without a player collider, and after clear). Without a player
  collider \<open>checkCollisions\<close> returns the proposed position object itself and changes
  nothing. \<open>clear\<close> drops all wall colliders and the player collider, so after it every
  call passes the proposed position through.
\<close>

theorem checkCollisions_pass_through:
  "(playerCollider sys = None \<longrightarrow>
      checkCollisions sys st playerPosition proposedPosition = (sys, st, proposedPosition))
   \<and> colliders (clear sys) = [] \<and> playerCollider (clear sys) = None
   \<and> checkCollisions (clear sys) st playerPosition proposedPosition
       = (clear sys, st, proposedPosition)"
  by (simp add: checkCollisions_def clear_def)

theorem checkCollisions_pass_through_witness:
  "playerCollider CollisionSystem = None
   \<and> checkCollisions CollisionSystem [Vector3 0 0 0, Vector3 1 1 1] 0 1
       = (CollisionSystem, [Vector3 0 0 0, Vector3 1 1 1], 1)
   \<and> checkCollisions (clear (resolverWith box22 (Vector3 0 0 3))) [Vector3 0 0 0, Vector3 1 1 1] 0 1
       = (clear (resolverWith box22 (Vector3 0 0 3)), [Vector3 0 0 0, Vector3 1 1 1], 1)"
  using checkCollisions_pass_through[of CollisionSystem "[Vector3 0 0 0, Vector3 1 1 1]" 0 1]
    checkCollisions_pass_through[of "resolverWith box22 (Vector3 0 0 3)" "[Vector3 0 0 0, Vector3 1 1 1]" 0 1]
  by (simp add: CollisionSystem_def)

section \<open>The grid: exclusive membership\<close>

lemma exclusiveMembership_iff:
  "exclusiveMembership g \<longleftrightarrow>
     (\<forall>ob ci. map_of (objectCells g) ob = Some ci \<longrightarrow>
        0 \<le> ci \<and> ci < int (length (cells g))
        \<and> (\<forall>j < length (cells g). (ob \<in> set (cells g ! j)) = (j = nat ci)))
     \<and> (\<forall>j < length (cells g). \<forall>ob \<in> set (cells g ! j). map_of (objectCells g) ob \<noteq> None)"
  (is "?L \<longleftrightarrow> ?A \<and> ?B")
proof
  assume L: ?L
  have ?A
  proof (intro allI impI)
    fix ob ci assume m: "map_of (objectCells g) ob = Some ci"
    then have "ob \<in> set (map fst (objectCells g))"
      by (metis map_of_eq_None_iff option.distinct(1) set_map)
    with L m show "0 \<le> ci \<and> ci < int (length (cells g))
        \<and> (\<forall>j < length (cells g). (ob \<in> set (cells g ! j)) = (j = nat ci))"
      unfolding exclusiveMembership_def by fastforce
  qed
  moreover have ?B using L unfolding exclusiveMembership_def by blast
  ultimately show "?A \<and> ?B" ..
next
  assume AB: "?A \<and> ?B"
  show ?L unfolding exclusiveMembership_def
  proof (intro conjI ballI)
    fix ob assume "ob \<in> set (map fst (objectCells g))"
    then obtain ci where "map_of (objectCells g) ob = Some ci"
      by (metis map_of_eq_None_iff not_Some_eq set_map)
    with AB show "case map_of (objectCells g) ob of
           None \<Rightarrow> False
         | Some ci \<Rightarrow> 0 \<le> ci \<and> ci < int (length (cells g))
                     \<and> (\<forall>j < length (cells g). (ob \<in> set (cells g ! j)) = (j = nat ci))"
      by simp
  next
    show "\<forall>j<length (cells g). \<forall>ob\<in>set (cells g ! j). map_of (objectCells g) ob \<noteq> None"
      using AB by blast
  qed
qed

lemma set_setAdd: "set (setAdd a xs) = insert a (set xs)"
  by (auto simp: setAdd_def)

lemma set_setDelete: "set (setDelete a xs) = set xs - {a}"
  by (simp add: setDelete_def)

lemma cellAt_Some: "cellAt g i = Some c \<longleftrightarrow> 0 \<le> i \<and> i < int (length (cells g)) \<and> c = cells g ! nat i"
  by (auto simp: cellAt_def)

lemma cellAt_None: "cellAt g i = None \<longleftrightarrow> \<not> (0 \<le> i \<and> i < int (length (cells g)))"
  by (auto simp: cellAt_def)

lemma insertObject_Inr:
  assumes "insertObject g ob p = Inr g'"
  shows "0 \<le> getCellIndex g (vx p) (vz p)
       \<and> getCellIndex g (vx p) (vz p) < int (length (cells g))
       \<and> g' = g\<lparr>cells := (cells g)[nat (getCellIndex g (vx p) (vz p))
                          := setAdd ob (cells g ! nat (getCellIndex g (vx p) (vz p)))],
                 objectCells := AList.update ob (getCellIndex g (vx p) (vz p)) (objectCells g)\<rparr>"
  using assms by (auto simp: insertObject_def cellAt_def Let_def split: if_splits)

lemma insertObject_fresh:
  assumes ex: "exclusiveMembership g" and ins: "insertObject g ob p = Inr g'"
    and fresh: "map_of (objectCells g) ob = None"
  shows "exclusiveMembership g'"
proof -
  let ?ci = "getCellIndex g (vx p) (vz p)"
  let ?g' = "g\<lparr>cells := (cells g)[nat ?ci := setAdd ob (cells g ! nat ?ci)],
               objectCells := AList.update ob ?ci (objectCells g)\<rparr>"
  have rng: "0 \<le> ?ci \<and> ?ci < int (length (cells g))" and g': "g' = ?g'"
    using insertObject_Inr[OF ins] by simp_all
  from ex have A: "\<And>ob' ci. map_of (objectCells g) ob' = Some ci \<Longrightarrow>
        0 \<le> ci \<and> ci < int (length (cells g))
        \<and> (\<forall>j < length (cells g). (ob' \<in> set (cells g ! j)) = (j = nat ci))"
    and B: "\<And>j ob'. j < length (cells g) \<Longrightarrow> ob' \<in> set (cells g ! j) \<Longrightarrow> map_of (objectCells g) ob' \<noteq> None"
    unfolding exclusiveMembership_iff by blast+
  have nlt: "nat ?ci < length (cells g)" using rng by linarith
  have mem: "\<And>j x. j < length (cells g) \<Longrightarrow>
      x \<in> set (cells ?g' ! j) \<longleftrightarrow> (x \<in> set (cells g ! j) \<or> (j = nat ?ci \<and> x = ob))"
    using nlt by (auto simp: nth_list_update set_setAdd)
  have mp: "map_of (objectCells ?g') = (map_of (objectCells g))(ob \<mapsto> ?ci)"
    by (simp add: update_conv')
  have notin: "\<And>j. j < length (cells g) \<Longrightarrow> ob \<notin> set (cells g ! j)"
    using B fresh by blast
  have A': "\<forall>ob' ci. map_of (objectCells ?g') ob' = Some ci \<longrightarrow>
        0 \<le> ci \<and> ci < int (length (cells ?g'))
        \<and> (\<forall>j < length (cells ?g'). (ob' \<in> set (cells ?g' ! j)) = (j = nat ci))"
  proof (intro allI impI)
    fix ob' ci assume m: "map_of (objectCells ?g') ob' = Some ci"
    show "0 \<le> ci \<and> ci < int (length (cells ?g'))
        \<and> (\<forall>j < length (cells ?g'). (ob' \<in> set (cells ?g' ! j)) = (j = nat ci))"
    proof (cases "ob' = ob")
      case True
      then have "ci = ?ci" using m mp by simp
      then show ?thesis using True rng mem notin by auto
    next
      case False
      then have "map_of (objectCells g) ob' = Some ci" using m mp by simp
      from A[OF this] show ?thesis using False mem by auto
    qed
  qed
  have B': "\<forall>j < length (cells ?g'). \<forall>ob' \<in> set (cells ?g' ! j).
              map_of (objectCells ?g') ob' \<noteq> None"
  proof (intro allI impI ballI)
    fix j ob' assume j: "j < length (cells ?g')" and o: "ob' \<in> set (cells ?g' ! j)"
    then have "ob' \<in> set (cells g ! j) \<or> ob' = ob" using mem by auto
    then show "map_of (objectCells ?g') ob' \<noteq> None"
      using B j mp by auto
  qed
  have "exclusiveMembership ?g'"
    using A' B' exclusiveMembership_iff[of ?g'] by blast
  then show ?thesis by (simp only: g')
qed

lemma insertObject_same_cell:
  assumes ex: "exclusiveMembership g" and ins: "insertObject g ob p = Inr g'"
    and tr: "map_of (objectCells g) ob = Some (getCellIndex g (vx p) (vz p))"
  shows "exclusiveMembership g'"
proof -
  let ?ci = "getCellIndex g (vx p) (vz p)"
  let ?g' = "g\<lparr>cells := (cells g)[nat ?ci := setAdd ob (cells g ! nat ?ci)],
               objectCells := AList.update ob ?ci (objectCells g)\<rparr>"
  have rng: "0 \<le> ?ci \<and> ?ci < int (length (cells g))" and g': "g' = ?g'"
    using insertObject_Inr[OF ins] by simp_all
  have nlt: "nat ?ci < length (cells g)" using rng by linarith
  have "\<forall>j < length (cells g). (ob \<in> set (cells g ! j)) = (j = nat ?ci)"
    using ex tr unfolding exclusiveMembership_iff by blast
  then have "ob \<in> set (cells g ! nat ?ci)" using nlt by blast
  then have "setAdd ob (cells g ! nat ?ci) = cells g ! nat ?ci" by (simp add: setAdd_def)
  then have cs: "cells ?g' = cells g" by simp
  have mp: "map_of (objectCells ?g') = map_of (objectCells g)"
    using tr by (simp add: update_conv' map_upd_triv)
  have "exclusiveMembership ?g'"
    using ex unfolding exclusiveMembership_iff cs mp .
  then show ?thesis by (simp only: g')
qed

lemma removeObject_preserves:
  assumes ex: "exclusiveMembership g"
  shows "\<exists>g'. removeObject g ob = Inr g' \<and> exclusiveMembership g'
            \<and> map_of (objectCells g') ob = None
            \<and> (wellFormed g \<longrightarrow> wellFormed g')"
proof (cases "map_of (objectCells g) ob")
  case None
  then show ?thesis using ex by (simp add: removeObject_def)
next
  case (Some ci)
  let ?g' = "g\<lparr>cells := (cells g)[nat ci := setDelete ob (cells g ! nat ci)],
               objectCells := AList.delete ob (objectCells g)\<rparr>"
  from ex have A: "\<And>ob' ci. map_of (objectCells g) ob' = Some ci \<Longrightarrow>
        0 \<le> ci \<and> ci < int (length (cells g))
        \<and> (\<forall>j < length (cells g). (ob' \<in> set (cells g ! j)) = (j = nat ci))"
    and B: "\<And>j ob'. j < length (cells g) \<Longrightarrow> ob' \<in> set (cells g ! j) \<Longrightarrow> map_of (objectCells g) ob' \<noteq> None"
    unfolding exclusiveMembership_iff by blast+
  have rng: "0 \<le> ci \<and> ci < int (length (cells g))" using A[OF Some] by simp
  then have rem: "removeObject g ob = Inr ?g'"
    using Some by (simp add: removeObject_def cellAt_def)
  have wf': "wellFormed g \<longrightarrow> wellFormed ?g'" by (auto simp: wellFormed_def)
  have nlt: "nat ci < length (cells g)" using rng by linarith
  have only: "\<And>j. j < length (cells g) \<Longrightarrow> (ob \<in> set (cells g ! j)) = (j = nat ci)"
    using A[OF Some] by simp
  have mem: "\<And>j x. j < length (cells g) \<Longrightarrow>
      x \<in> set (cells ?g' ! j) \<longleftrightarrow> (x \<in> set (cells g ! j) \<and> x \<noteq> ob)"
    using nlt only by (auto simp: nth_list_update set_setDelete)
  have mp: "map_of (objectCells ?g') = (map_of (objectCells g))(ob := None)"
    by (simp add: delete_conv')
  have A': "\<forall>ob' ci'. map_of (objectCells ?g') ob' = Some ci' \<longrightarrow>
        0 \<le> ci' \<and> ci' < int (length (cells ?g'))
        \<and> (\<forall>j < length (cells ?g'). (ob' \<in> set (cells ?g' ! j)) = (j = nat ci'))"
  proof (intro allI impI)
    fix ob' ci' assume m: "map_of (objectCells ?g') ob' = Some ci'"
    then have ne: "ob' \<noteq> ob" and m0: "map_of (objectCells g) ob' = Some ci'"
      using mp by (auto split: if_splits)
    from A[OF m0] show "0 \<le> ci' \<and> ci' < int (length (cells ?g'))
        \<and> (\<forall>j < length (cells ?g'). (ob' \<in> set (cells ?g' ! j)) = (j = nat ci'))"
      using ne mem by auto
  qed
  have B': "\<forall>j < length (cells ?g'). \<forall>ob' \<in> set (cells ?g' ! j).
              map_of (objectCells ?g') ob' \<noteq> None"
  proof (intro allI impI ballI)
    fix j ob' assume j: "j < length (cells ?g')" and o: "ob' \<in> set (cells ?g' ! j)"
    then have "ob' \<in> set (cells g ! j) \<and> ob' \<noteq> ob" using mem by auto
    then show "map_of (objectCells ?g') ob' \<noteq> None"
      using B j mp by auto
  qed
  have "exclusiveMembership ?g'"
    using A' B' exclusiveMembership_iff[of ?g'] by blast
  then show ?thesis using rem wf' mp by auto
qed

lemma insertObject_returns:
  assumes "wellFormed g"
  shows "\<exists>g'. insertObject g ob p = Inr g' \<and> wellFormed g'"
proof -
  let ?ci = "getCellIndex g (vx p) (vz p)"
  let ?g' = "g\<lparr>cells := (cells g)[nat ?ci := setAdd ob (cells g ! nat ?ci)],
               objectCells := AList.update ob ?ci (objectCells g)\<rparr>"
  have "0 \<le> ?ci \<and> ?ci < int (length (cells g))"
    using getCellIndex_wellFormed[OF assms, of "vx p" "vz p"] by blast
  then have "insertObject g ob p = Inr ?g'"
    by (simp add: insertObject_def cellAt_def Let_def)
  moreover have "wellFormed ?g'" using assms by (auto simp: wellFormed_def)
  ultimately show ?thesis by blast
qed

text \<open>A call of a safe sequence keeps exclusive membership, whether it returns or throws.\<close>

lemma applyOp_exclusive:
  assumes ex: "exclusiveMembership g" and safe: "safeInserts g (a # as)"
  shows "(\<forall>g'. applyOp g a = Inr g' \<longrightarrow> exclusiveMembership g')
       \<and> exclusiveMembership (stateAtThrow g a)"
proof (cases a)
  case (Insert ob p)
  have "\<And>g'. insertObject g ob p = Inr g' \<Longrightarrow> exclusiveMembership g'"
  proof -
    fix g' assume ins: "insertObject g ob p = Inr g'"
    show "exclusiveMembership g'"
    proof (cases "map_of (objectCells g) ob")
      case None
      then show ?thesis using insertObject_fresh[OF ex ins] by simp
    next
      case (Some ci)
      then have "map_of (objectCells g) ob = Some (getCellIndex g (vx p) (vz p))"
        using safe Insert by simp
      then show ?thesis using insertObject_same_cell[OF ex ins] by simp
    qed
  qed
  then show ?thesis using Insert ex by simp
next
  case (Update ob p)
  obtain g1 where r: "removeObject g ob = Inr g1" and e1: "exclusiveMembership g1"
    and f1: "map_of (objectCells g1) ob = None"
    using removeObject_preserves[OF ex] by blast
  have "\<And>g'. updateObject g ob p = Inr g' \<Longrightarrow> exclusiveMembership g'"
  proof -
    fix g' assume "updateObject g ob p = Inr g'"
    then have "insertObject g1 ob p = Inr g'" using r by (simp add: updateObject_def)
    then show "exclusiveMembership g'" using insertObject_fresh[OF e1 _ f1] by simp
  qed
  then show ?thesis using Update r e1 by simp
next
  case (Remove ob)
  then show ?thesis using removeObject_preserves[OF ex, of ob] ex by auto
qed

lemma finalState_exclusive:
  assumes "exclusiveMembership g" and "safeInserts g ops"
  shows "exclusiveMembership (finalState g ops)"
  using assms
proof (induction ops arbitrary: g)
  case Nil
  then show ?case by simp
next
  case (Cons a ops)
  note step = applyOp_exclusive[OF Cons.prems]
  show ?case
  proof (cases "applyOp g a")
    case (Inl e)
    then show ?thesis using step by simp
  next
    case (Inr g1)
    then have e: "exclusiveMembership g1" using step by simp
    have "safeInserts g1 ops" using Cons.prems(2) Inr by simp
    from Cons.IH[OF e this] show ?thesis using Inr by simp
  qed
qed

text \<open>On a grid with sizes of ordinary magnitude, no call of a safe sequence throws.\<close>

lemma applyOp_returns:
  assumes wf: "wellFormed g" and ex: "exclusiveMembership g"
  shows "\<exists>g'. applyOp g a = Inr g' \<and> wellFormed g'"
proof (cases a)
  case (Insert ob p)
  then show ?thesis using insertObject_returns[OF wf] by simp
next
  case (Update ob p)
  obtain g1 where r: "removeObject g ob = Inr g1" and w1: "wellFormed g1"
    using removeObject_preserves[OF ex, of ob] wf by blast
  show ?thesis using insertObject_returns[OF w1, of ob p] r Update by (simp add: updateObject_def)
next
  case (Remove ob)
  then show ?thesis using removeObject_preserves[OF ex, of ob] wf by auto
qed

lemma applyOps_returns:
  assumes "wellFormed g" and "exclusiveMembership g" and "safeInserts g ops"
  shows "applyOps g ops = Inr (finalState g ops)"
  using assms
proof (induction ops arbitrary: g)
  case Nil
  then show ?case by simp
next
  case (Cons a ops)
  obtain g1 where s: "applyOp g a = Inr g1" and w: "wellFormed g1"
    using applyOp_returns[OF Cons.prems(1,2)] by blast
  have e: "exclusiveMembership g1" using applyOp_exclusive[OF Cons.prems(2,3)] s by simp
  have "safeInserts g1 ops" using Cons.prems(3) s by simp
  from Cons.IH[OF w e this] show ?case using s by simp
qed

lemma cells16: "replicate 16 [] = [[],[],[],[],[],[],[],[],[],[],[],[],[],[],[],([]::nat list)]"
  by (simp add: numeral_eq_Suc)

lemmas grid_eval = insertObject_def updateObject_def removeObject_def getCellIndex20
  cellCoordinate20 cellAt_def grid20_def cells16 setAdd_def setDelete_def

text \<open>
  C3 (exclusive membership), as amended. Take a grid built by the constructor and a
  sequence of \<open>insertObject\<close>, \<open>updateObject\<close> and \<open>removeObject\<close> calls in which
  \<open>insertObject\<close> is only called on objects that at that moment are not tracked, or are
  tracked in the cell of the new position. In the grid that the sequence leaves behind,
  whether it ran to its end or stopped at a call that threw, each tracked object is in
  exactly the cell recorded for it and no cell holds an untracked object. When the sizes
  given to the constructor are of ordinary magnitude, no call throws and the sequence
  runs to its end.
\<close>

theorem exclusive_membership_safe_inserts:
  assumes "SpatialHashGrid cs wx wz = Inr g0" and "safeInserts g0 ops"
  shows "exclusiveMembership (finalState g0 ops)
       \<and> (ordinarySizes cs wx wz \<longrightarrow> applyOps g0 ops = Inr (finalState g0 ops))"
proof -
  note e0 = exclusive_constructed[OF assms(1)]
  have "exclusiveMembership (finalState g0 ops)"
    using finalState_exclusive[OF e0 assms(2)] .
  moreover have "ordinarySizes cs wx wz \<longrightarrow> applyOps g0 ops = Inr (finalState g0 ops)"
  proof
    assume "ordinarySizes cs wx wz"
    then have "wellFormed g0" using wellFormed_constructed[OF assms(1)] by simp
    then show "applyOps g0 ops = Inr (finalState g0 ops)"
      using applyOps_returns[OF _ e0 assms(2)] by simp
  qed
  ultimately show ?thesis ..
qed

theorem exclusive_membership_safe_inserts_witness:
  "SpatialHashGrid 5 20 20 = Inr grid20
   \<and> ordinarySizes 5 20 20
   \<and> safeInserts grid20 [Insert 1 (Vector3 2 0 2), Insert 2 (Vector3 7 0 2),
                          Update 1 (Vector3 12 0 12), Remove 2, Insert 2 (Vector3 0 0 0),
                          Insert 2 (Vector3 1 0 1)]
   \<and> applyOps grid20 [Insert 1 (Vector3 2 0 2), Insert 2 (Vector3 7 0 2),
                       Update 1 (Vector3 12 0 12), Remove 2, Insert 2 (Vector3 0 0 0),
                       Insert 2 (Vector3 1 0 1)]
       = Inr gridMoved
   \<and> finalState grid20 [Insert 1 (Vector3 2 0 2), Insert 2 (Vector3 7 0 2),
                         Update 1 (Vector3 12 0 12), Remove 2, Insert 2 (Vector3 0 0 0),
                         Insert 2 (Vector3 1 0 1)]
       = gridMoved
   \<and> exclusiveMembership gridMoved
   \<and> SpatialHashGrid 10000000000000 100000000000000 100000000000000 = Inr gridHuge
   \<and> safeInserts gridHuge [Update 1 (Vector3 200000000000000 0 200000000000000)]
   \<and> applyOps gridHuge [Update 1 (Vector3 200000000000000 0 200000000000000)] = Inl TypeError
   \<and> finalState gridHuge [Update 1 (Vector3 200000000000000 0 200000000000000)] = gridHuge
   \<and> exclusiveMembership gridHuge"
proof -
  let ?ops = "[Insert 1 (Vector3 2 0 2), Insert 2 (Vector3 7 0 2),
               Update 1 (Vector3 12 0 12), Remove 2, Insert 2 (Vector3 0 0 0),
               Insert 2 (Vector3 1 0 1)]"
  let ?huge = "[Update 1 (Vector3 200000000000000 0 200000000000000)]"
  have ord: "ordinarySizes 5 20 20" by (simp add: ordinarySizes_def)
  have safe: "safeInserts grid20 ?ops"
    by (simp add: grid_eval)
  have run: "applyOps grid20 ?ops = Inr gridMoved"
    by (simp add: grid_eval gridMoved_def)
  have t: "exclusiveMembership (finalState grid20 ?ops)
           \<and> (ordinarySizes 5 20 20 \<longrightarrow> applyOps grid20 ?ops = Inr (finalState grid20 ?ops))"
    using exclusive_membership_safe_inserts[OF grid20_constructed safe] .
  then have fin: "finalState grid20 ?ops = gridMoved" using ord run by simp
  then have ex: "exclusiveMembership gridMoved" using t by simp
  have rem: "\<And>ob. removeObject gridHuge ob = Inr gridHuge"
    by (simp add: removeObject_def gridHuge_def)
  have upd: "\<And>ob. updateObject gridHuge ob (Vector3 200000000000000 0 200000000000000)
                  = Inl TypeError"
    by (simp add: updateObject_def rem insertObjectHuge)
  have hsafe: "safeInserts gridHuge ?huge" by (simp add: upd)
  have hrun: "applyOps gridHuge ?huge = Inl TypeError" by (simp add: upd)
  have hfin: "finalState gridHuge ?huge = gridHuge" by (simp add: upd rem)
  have "exclusiveMembership (finalState gridHuge ?huge)"
    using exclusive_membership_safe_inserts[OF gridHuge_constructed hsafe] by simp
  then have hex: "exclusiveMembership gridHuge" by (simp only: hfin)
  show ?thesis using grid20_constructed ord safe run fin ex gridHuge_constructed hsafe hrun hfin hex
    by blast
qed

text \<open>
  Without the restriction on \<open>insertObject\<close> the property fails: inserting a tracked object
  again at a position in another cell leaves it in both cells, with the new cell recorded.
\<close>

theorem exclusive_membership_counterexample:
  "SpatialHashGrid 5 20 20 = Inr grid20
   \<and> applyOps grid20 [Insert 1 (Vector3 2 0 2), Insert 1 (Vector3 7 0 2)] = Inr gridTwice
   \<and> map_of (objectCells gridTwice) 1 = Some 1
   \<and> 1 \<in> set (cells gridTwice ! 0) \<and> 1 \<in> set (cells gridTwice ! 1)
   \<and> \<not> exclusiveMembership gridTwice"
proof -
  have run: "applyOps grid20 [Insert 1 (Vector3 2 0 2), Insert 1 (Vector3 7 0 2)] = Inr gridTwice"
    by (simp add: grid_eval gridTwice_def)
  have tr: "map_of (objectCells gridTwice) 1 = Some 1"
    by (simp add: gridTwice_def)
  have c0: "1 \<in> set (cells gridTwice ! 0)" and c1: "1 \<in> set (cells gridTwice ! 1)"
    and len: "0 < length (cells gridTwice)"
    by (simp_all add: gridTwice_def grid20_def cells16)
  have "\<not> exclusiveMembership gridTwice"
  proof
    assume "exclusiveMembership gridTwice"
    then have "\<forall>j < length (cells gridTwice). (1 \<in> set (cells gridTwice ! j)) = (j = nat 1)"
      using tr unfolding exclusiveMembership_iff by blast
    then have "(1 \<in> set (cells gridTwice ! 0)) = (0 = nat 1)" using len by blast
    then show False using c0 by simp
  qed
  then show ?thesis using run tr c0 c1 grid20_constructed by simp
qed

section \<open>The grid: queries with a radius that is not positive\<close>

lemma set_foldl_setAdd: "set (foldl (\<lambda>acc ob. setAdd ob acc) acc xs) = set acc \<union> set xs"
  by (induction xs arbitrary: acc) (auto simp: set_setAdd)

lemma floor_fl_div_mono:
  fixes u v cs :: real
  assumes "u \<le> v" and "0 < cs"
  shows "\<lfloor>fl (u / cs)\<rfloor> \<le> \<lfloor>fl (v / cs)\<rfloor>"
  using assms by (intro floor_mono fl_mono divide_right_mono) simp_all

lemma query_range_squeezed:
  fixes x r w cs :: real
  assumes "0 < cs" and "0 \<le> x" and "fl x = x" and "r \<le> 0"
  shows "\<lfloor>fl (min (fl (w - fl 0.001)) (fl (x + r)) / cs)\<rfloor> \<le> cellCoordinate cs w x"
    and "cellCoordinate cs w x \<le> \<lfloor>fl (max 0 (fl (x - r)) / cs)\<rfloor>"
proof -
  define b where "b = fl (w - fl 0.001)"
  have "fl (x + r) \<le> fl x" using assms(4) by (intro fl_mono) simp
  then have lo: "fl (x + r) \<le> x" by (simp only: assms(3))
  have "fl x \<le> fl (x - r)" using assms(4) by (intro fl_mono) simp
  then have hi: "x \<le> fl (x - r)" by (simp only: assms(3))
  have c: "cellCoordinate cs w x = \<lfloor>fl (max 0 (min x b) / cs)\<rfloor>"
    by (simp add: cellCoordinate_def b_def)
  have "min b (fl (x + r)) \<le> max 0 (min x b)" using lo by (simp add: min_def max_def)
  then have "\<lfloor>fl (min b (fl (x + r)) / cs)\<rfloor> \<le> \<lfloor>fl (max 0 (min x b) / cs)\<rfloor>"
    using assms(1) by (rule floor_fl_div_mono)
  then show "\<lfloor>fl (min (fl (w - fl 0.001)) (fl (x + r)) / cs)\<rfloor> \<le> cellCoordinate cs w x"
    by (simp only: c b_def)
  have "max 0 (min x b) \<le> max 0 (fl (x - r))" using hi assms(2) by (simp add: min_def max_def)
  then have "\<lfloor>fl (max 0 (min x b) / cs)\<rfloor> \<le> \<lfloor>fl (max 0 (fl (x - r)) / cs)\<rfloor>"
    using assms(1) by (rule floor_fl_div_mono)
  then show "cellCoordinate cs w x \<le> \<lfloor>fl (max 0 (fl (x - r)) / cs)\<rfloor>"
    by (simp only: c)
qed

lemma query_range_exact:
  fixes x w cs :: real
  assumes "0 \<le> x" and "fl x = x" and "x \<le> fl (w - fl 0.001)"
  shows "\<lfloor>fl (max 0 (fl (x - 0)) / cs)\<rfloor> = cellCoordinate cs w x"
    and "\<lfloor>fl (min (fl (w - fl 0.001)) (fl (x + 0)) / cs)\<rfloor> = cellCoordinate cs w x"
proof -
  have m: "max 0 (min x (fl (w - fl 0.001))) = x" using assms(1,3) by (simp add: min_def max_def)
  have c: "cellCoordinate cs w x = \<lfloor>fl (x / cs)\<rfloor>"
    unfolding cellCoordinate_def m ..
  have "max 0 (fl (x - 0)) = x" using assms(1,2) by simp
  then show "\<lfloor>fl (max 0 (fl (x - 0)) / cs)\<rfloor> = cellCoordinate cs w x" by (simp only: c)
  have "min (fl (w - fl 0.001)) (fl (x + 0)) = x" using assms(2,3) by (simp add: min_def)
  then show "\<lfloor>fl (min (fl (w - fl 0.001)) (fl (x + 0)) / cs)\<rfloor> = cellCoordinate cs w x"
    by (simp only: c)
qed

lemma findNearbyObjects_single_cell:
  assumes wf: "wellFormed g"
    and xs: "minCellX g p r = cellCoordinate (cellSize g) (worldSizeX g) (vx p)"
            "maxCellX g p r = cellCoordinate (cellSize g) (worldSizeX g) (vx p)"
    and zs: "minCellZ g p r = cellCoordinate (cellSize g) (worldSizeZ g) (vz p)"
            "maxCellZ g p r = cellCoordinate (cellSize g) (worldSizeZ g) (vz p)"
  shows "set (findNearbyObjects g p r) = set (cells g ! nat (getCellIndex g (vx p) (vz p)))"
proof -
  define cx where "cx = cellCoordinate (cellSize g) (worldSizeX g) (vx p)"
  define cz where "cz = cellCoordinate (cellSize g) (worldSizeZ g) (vz p)"
  have rng: "0 \<le> getCellIndex g (vx p) (vz p) \<and> getCellIndex g (vx p) (vz p) < int (length (cells g))"
    using getCellIndex_wellFormed[OF wf, of "vx p" "vz p"] by blast
  have idx: "\<lfloor>fl (of_int cx + fl (of_int cz * of_int (numCellsX g)))\<rfloor> = getCellIndex g (vx p) (vz p)"
    by (simp only: getCellIndex_cellCoordinate cx_def cz_def)
  have "findNearbyObjects g p r = addCell g cz [] cx"
    unfolding findNearbyObjects_def xs zs cx_def[symmetric] cz_def[symmetric] by simp
  also have "\<dots> = foldl (\<lambda>acc ob. setAdd ob acc) [] (cells g ! nat (getCellIndex g (vx p) (vz p)))"
    unfolding addCell_def idx using rng by (simp add: cellAt_def)
  finally show ?thesis by (simp add: set_foldl_setAdd)
qed

lemma findNearbyObjects_no_cell:
  assumes "maxCellX g p r < minCellX g p r \<or> maxCellZ g p r < minCellZ g p r"
  shows "findNearbyObjects g p r = []"
proof -
  have inner: "\<And>zs. foldl (\<lambda>nearby z. foldl (addCell g z) nearby []) [] zs = []"
  proof -
    fix zs :: "int list"
    show "foldl (\<lambda>nearby z. foldl (addCell g z) nearby []) [] zs = []"
      by (induction zs) simp_all
  qed
  from assms show ?thesis
  proof
    assume "maxCellX g p r < minCellX g p r"
    then have "[minCellX g p r..maxCellX g p r] = []" by simp
    then show ?thesis unfolding findNearbyObjects_def using inner by simp
  next
    assume "maxCellZ g p r < minCellZ g p r"
    then have "[minCellZ g p r..maxCellZ g p r] = []" by simp
    then show ?thesis unfolding findNearbyObjects_def by simp
  qed
qed

text \<open>
  C8 (degenerate radius), as amended. Take a grid with sizes of ordinary magnitude, an
  in-bounds position whose coordinates are doubles, and a radius that is zero or negative.
  \<open>findNearbyObjects\<close> is a total function: the call does not throw. When the two cell
  ranges it computes are both non-empty (\<open>minCellX \<le> maxCellX\<close> and \<open>minCellZ \<le> maxCellZ\<close>)
  it returns exactly the members of the cell of the position, the one \<open>getCellIndex\<close>
  gives; when one of the ranges is empty it returns nothing. For radius zero and a
  position whose coordinates are at most the rounded difference of the world size and
  0.001, both ranges are non-empty.
\<close>

theorem findNearbyObjects_nonpositive_radius:
  assumes wf: "wellFormed g"
    and px: "0 \<le> vx p" "vx p < worldSizeX g" and pz: "0 \<le> vz p" "vz p < worldSizeZ g"
    and dx: "fl (vx p) = vx p" and dz: "fl (vz p) = vz p"
    and r: "r \<le> 0"
  shows "(minCellX g p r \<le> maxCellX g p r \<and> minCellZ g p r \<le> maxCellZ g p r \<longrightarrow>
            set (findNearbyObjects g p r) = set (cells g ! nat (getCellIndex g (vx p) (vz p))))
       \<and> (maxCellX g p r < minCellX g p r \<or> maxCellZ g p r < minCellZ g p r \<longrightarrow>
            findNearbyObjects g p r = [])
       \<and> (r = 0 \<and> vx p \<le> fl (worldSizeX g - fl 0.001) \<and> vz p \<le> fl (worldSizeZ g - fl 0.001) \<longrightarrow>
            minCellX g p r \<le> maxCellX g p r \<and> minCellZ g p r \<le> maxCellZ g p r)"
proof -
  have cs: "0 < cellSize g" using wf by (simp add: wellFormed_def ordinarySizes_def)
  define cx where "cx = cellCoordinate (cellSize g) (worldSizeX g) (vx p)"
  define cz where "cz = cellCoordinate (cellSize g) (worldSizeZ g) (vz p)"
  have sx: "maxCellX g p r \<le> cx" "cx \<le> minCellX g p r"
    unfolding maxCellX_def minCellX_def cx_def
    using query_range_squeezed[OF cs px(1) dx r] by blast+
  have sz: "maxCellZ g p r \<le> cz" "cz \<le> minCellZ g p r"
    unfolding maxCellZ_def minCellZ_def cz_def
    using query_range_squeezed[OF cs pz(1) dz r] by blast+
  have first: "minCellX g p r \<le> maxCellX g p r \<and> minCellZ g p r \<le> maxCellZ g p r \<longrightarrow>
            set (findNearbyObjects g p r) = set (cells g ! nat (getCellIndex g (vx p) (vz p)))"
  proof
    assume h: "minCellX g p r \<le> maxCellX g p r \<and> minCellZ g p r \<le> maxCellZ g p r"
    have "minCellX g p r = cx" "maxCellX g p r = cx" "minCellZ g p r = cz" "maxCellZ g p r = cz"
      using h sx sz by simp_all
    then show "set (findNearbyObjects g p r) = set (cells g ! nat (getCellIndex g (vx p) (vz p)))"
      unfolding cx_def cz_def by (intro findNearbyObjects_single_cell[OF wf])
  qed
  have second: "maxCellX g p r < minCellX g p r \<or> maxCellZ g p r < minCellZ g p r \<longrightarrow>
            findNearbyObjects g p r = []"
    using findNearbyObjects_no_cell by blast
  have third: "r = 0 \<and> vx p \<le> fl (worldSizeX g - fl 0.001) \<and> vz p \<le> fl (worldSizeZ g - fl 0.001) \<longrightarrow>
            minCellX g p r \<le> maxCellX g p r \<and> minCellZ g p r \<le> maxCellZ g p r"
  proof
    assume h: "r = 0 \<and> vx p \<le> fl (worldSizeX g - fl 0.001) \<and> vz p \<le> fl (worldSizeZ g - fl 0.001)"
    then have r0: "r = 0" and hx: "vx p \<le> fl (worldSizeX g - fl 0.001)"
      and hz: "vz p \<le> fl (worldSizeZ g - fl 0.001)" by simp_all
    have "minCellX g p r = cx" "maxCellX g p r = cx"
      unfolding minCellX_def maxCellX_def cx_def r0
      using query_range_exact[OF px(1) dx hx] by blast+
    moreover have "minCellZ g p r = cz" "maxCellZ g p r = cz"
      unfolding minCellZ_def maxCellZ_def cz_def r0
      using query_range_exact[OF pz(1) dz hz] by blast+
    ultimately show "minCellX g p r \<le> maxCellX g p r \<and> minCellZ g p r \<le> maxCellZ g p r"
      by simp
  qed
  show ?thesis using first second third by blast
qed

lemma minCell_eval:
  assumes "fl (x - r) = s" and "of_int k \<le> max 0 s / cs"
    and "max 0 s / cs \<le> of_int k + 1 - 1 / 2 ^ 20" and "\<bar>k\<bar> < 2 ^ 30"
  shows "\<lfloor>fl (max 0 (fl (x - r)) / cs)\<rfloor> = k"
  unfolding assms(1) using assms(2-4) by (rule floor_fl)

lemma maxCell_eval:
  assumes "lo \<le> fl (w - fl 0.001) \<and> fl (w - fl 0.001) \<le> hi" and "0 < cs"
    and "fl (x + r) = s" and "of_int k \<le> min lo s / cs"
    and "min hi s / cs \<le> of_int k + 1 - 1 / 2 ^ 20" and "\<bar>k\<bar> < 2 ^ 30"
  shows "\<lfloor>fl (min (fl (w - fl 0.001)) (fl (x + r)) / cs)\<rfloor> = k"
proof -
  define a where "a = fl (w - fl 0.001)"
  have a: "lo \<le> a" "a \<le> hi" using assms(1) by (simp_all add: a_def)
  have "min lo s \<le> min a s" using a(1) by (simp add: min_def)
  then have "min lo s / cs \<le> min a s / cs" using assms(2) by (intro divide_right_mono) simp_all
  then have l: "of_int k \<le> min a s / cs" using assms(4) by simp
  have "min a s \<le> min hi s" using a(2) by (simp add: min_def)
  then have "min a s / cs \<le> min hi s / cs" using assms(2) by (intro divide_right_mono) simp_all
  then have h: "min a s / cs \<le> of_int k + 1 - 1 / 2 ^ 20" using assms(5) by simp
  show ?thesis unfolding assms(3) a_def[symmetric] using l h assms(6) by (rule floor_fl)
qed

lemma gridOne_sizes:
  "cellSize gridOne = 5" "worldSizeX gridOne = 20" "worldSizeZ gridOne = 20"
  "numCellsX gridOne = 4"
  by (simp_all add: gridOne_def grid20_def)

lemma wellFormed_gridOne: "wellFormed gridOne"
  by (simp add: wellFormed_def ordinarySizes_def gridOne_def grid20_def fl_numeral)

lemma getCellIndex_gridOne: "getCellIndex gridOne 7 7 = 5"
  by (simp add: gridOne_def grid20_def getCellIndex20 cellCoordinate20)

lemma ranges_gridOne:
  "minCellX gridOne (Vector3 7 0 7) (- 1) = 1" "maxCellX gridOne (Vector3 7 0 7) (- 1) = 1"
  "minCellZ gridOne (Vector3 7 0 7) (- 1) = 1" "maxCellZ gridOne (Vector3 7 0 7) (- 1) = 1"
  "minCellX gridOne (Vector3 7 0 7) (- 3) = 2" "maxCellX gridOne (Vector3 7 0 7) (- 3) = 0"
  "minCellX gridOne (Vector3 7 0 7) 0 = 1" "maxCellX gridOne (Vector3 7 0 7) 0 = 1"
  "minCellZ gridOne (Vector3 7 0 7) 0 = 1" "maxCellZ gridOne (Vector3 7 0 7) 0 = 1"
proof -
  show "minCellX gridOne (Vector3 7 0 7) (- 1) = 1"
    unfolding minCellX_def gridOne_sizes
    by (rule minCell_eval[where s = 8]; simp add: fl_numeral)
  show "maxCellX gridOne (Vector3 7 0 7) (- 1) = 1"
    unfolding maxCellX_def gridOne_sizes
    by (rule maxCell_eval[OF clamp20, where s = 6]; simp add: fl_numeral)
  show "minCellZ gridOne (Vector3 7 0 7) (- 1) = 1"
    unfolding minCellZ_def gridOne_sizes
    by (rule minCell_eval[where s = 8]; simp add: fl_numeral)
  show "maxCellZ gridOne (Vector3 7 0 7) (- 1) = 1"
    unfolding maxCellZ_def gridOne_sizes
    by (rule maxCell_eval[OF clamp20, where s = 6]; simp add: fl_numeral)
  show "minCellX gridOne (Vector3 7 0 7) (- 3) = 2"
    unfolding minCellX_def gridOne_sizes
    by (rule minCell_eval[where s = 10]; simp add: fl_numeral)
  show "maxCellX gridOne (Vector3 7 0 7) (- 3) = 0"
    unfolding maxCellX_def gridOne_sizes
    by (rule maxCell_eval[OF clamp20, where s = 4]; simp add: fl_numeral)
  show "minCellX gridOne (Vector3 7 0 7) 0 = 1"
    unfolding minCellX_def gridOne_sizes
    by (rule minCell_eval[where s = 7]; simp add: fl_numeral)
  show "maxCellX gridOne (Vector3 7 0 7) 0 = 1"
    unfolding maxCellX_def gridOne_sizes
    by (rule maxCell_eval[OF clamp20, where s = 7]; simp add: fl_numeral)
  show "minCellZ gridOne (Vector3 7 0 7) 0 = 1"
    unfolding minCellZ_def gridOne_sizes
    by (rule minCell_eval[where s = 7]; simp add: fl_numeral)
  show "maxCellZ gridOne (Vector3 7 0 7) 0 = 1"
    unfolding maxCellZ_def gridOne_sizes
    by (rule maxCell_eval[OF clamp20, where s = 7]; simp add: fl_numeral)
qed

lemma addCell_gridOne: "addCell gridOne 1 [] 1 = [1]"
proof -
  have "\<lfloor>fl (of_int 1 + fl (of_int 1 * of_int (numCellsX gridOne)))\<rfloor> = 1 + 1 * numCellsX gridOne"
    by (rule flat_index_exact) (simp_all add: gridOne_sizes)
  then have "\<lfloor>fl (of_int 1 + fl (of_int 1 * of_int (numCellsX gridOne)))\<rfloor> = 5"
    by (simp add: gridOne_sizes)
  then show ?thesis
    unfolding addCell_def by (simp add: cellAt_def gridOne_def grid20_def cells16 setAdd_def)
qed

theorem findNearbyObjects_nonpositive_radius_witness:
  "wellFormed gridOne
   \<and> fl 7 = 7
   \<and> minCellX gridOne (Vector3 7 0 7) (- 1) = 1 \<and> maxCellX gridOne (Vector3 7 0 7) (- 1) = 1
   \<and> minCellZ gridOne (Vector3 7 0 7) (- 1) = 1 \<and> maxCellZ gridOne (Vector3 7 0 7) (- 1) = 1
   \<and> getCellIndex gridOne 7 7 = 5
   \<and> set (findNearbyObjects gridOne (Vector3 7 0 7) (- 1)) = set (cells gridOne ! 5)
   \<and> findNearbyObjects gridOne (Vector3 7 0 7) (- 1) = [1]
   \<and> minCellX gridOne (Vector3 7 0 7) (- 3) = 2 \<and> maxCellX gridOne (Vector3 7 0 7) (- 3) = 0
   \<and> findNearbyObjects gridOne (Vector3 7 0 7) (- 3) = []
   \<and> 7 \<le> fl (worldSizeX gridOne - fl 0.001) \<and> 7 \<le> fl (worldSizeZ gridOne - fl 0.001)
   \<and> minCellX gridOne (Vector3 7 0 7) 0 \<le> maxCellX gridOne (Vector3 7 0 7) 0
   \<and> minCellZ gridOne (Vector3 7 0 7) 0 \<le> maxCellZ gridOne (Vector3 7 0 7) 0
   \<and> set (findNearbyObjects gridOne (Vector3 7 0 7) 0) = set (cells gridOne ! 5)"
proof -
  note wf = wellFormed_gridOne
  have d: "fl 7 = 7" by (simp add: fl_numeral)
  have d': "fl (vx (Vector3 7 0 7)) = vx (Vector3 7 0 7)" "fl (vz (Vector3 7 0 7)) = vz (Vector3 7 0 7)"
    using d by simp_all
  have b: "0 \<le> vx (Vector3 7 0 7)" "vx (Vector3 7 0 7) < worldSizeX gridOne"
    "0 \<le> vz (Vector3 7 0 7)" "vz (Vector3 7 0 7) < worldSizeZ gridOne"
    by (simp_all add: gridOne_sizes)
  note t = findNearbyObjects_nonpositive_radius[OF wf b d']
  have ci: "getCellIndex gridOne 7 7 = 5" by (rule getCellIndex_gridOne)
  have "(7::real) \<le> 20 - 1 / 2 ^ 9" by simp
  also have "\<dots> \<le> fl (20 - fl 0.001)" using clamp20 ..
  finally have c7: "7 \<le> fl (worldSizeX gridOne - fl 0.001)" "7 \<le> fl (worldSizeZ gridOne - fl 0.001)"
    unfolding gridOne_sizes by simp_all
  have one: "set (findNearbyObjects gridOne (Vector3 7 0 7) (- 1)) = set (cells gridOne ! 5)"
    using t[of "- 1"] ci by (simp add: ranges_gridOne)
  have res: "findNearbyObjects gridOne (Vector3 7 0 7) (- 1) = [1]"
    by (simp add: findNearbyObjects_def ranges_gridOne addCell_gridOne)
  have none: "findNearbyObjects gridOne (Vector3 7 0 7) (- 3) = []"
    using t[of "- 3"] by (simp add: ranges_gridOne)
  have zero: "minCellX gridOne (Vector3 7 0 7) 0 \<le> maxCellX gridOne (Vector3 7 0 7) 0
              \<and> minCellZ gridOne (Vector3 7 0 7) 0 \<le> maxCellZ gridOne (Vector3 7 0 7) 0"
    using t[of 0] c7 by simp
  then have zero': "set (findNearbyObjects gridOne (Vector3 7 0 7) 0) = set (cells gridOne ! 5)"
    using t[of 0] ci by simp
  show ?thesis using wf d ranges_gridOne(1-6) ci one res none c7 zero zero' by blast
qed

lemma ceiling_fl:
  assumes "of_int k - 1 + 1 / 2 ^ 20 \<le> y" and "y \<le> of_int k" and "\<bar>k\<bar> < 2 ^ 30"
  shows "\<lceil>fl y\<rceil> = k \<and> \<bar>fl y\<bar> \<le> 2 ^ 53"
proof -
  define m where "m = (k - 1) * 2 ^ 20 + 1"
  have "\<bar>k\<bar> < 2 ^ 53" using assms(3) by simp
  then have hi: "fl (of_int k) = of_int k" by (rule fl_int)
  have "\<bar>m\<bar> < 2 ^ 53" using assms(3) by (simp add: m_def abs_if split: if_splits)
  then have d: "fl (of_int m / 2 ^ 20) = of_int m / 2 ^ 20" by (rule fl_dyadic) simp
  have e: "(of_int m :: real) / 2 ^ 20 = of_int k - 1 + 1 / 2 ^ 20"
    by (simp add: m_def field_simps)
  have lo: "fl (of_int k - 1 + 1 / 2 ^ 20) = of_int k - 1 + 1 / 2 ^ 20"
    using d by (simp only: e)
  have "fl (of_int k - 1 + 1 / 2 ^ 20) \<le> fl y" using assms(1) by (rule fl_mono)
  then have "of_int k - 1 + 1 / 2 ^ 20 \<le> fl y" by (simp only: lo)
  then have a: "of_int k - 1 < fl y" by simp
  have "fl y \<le> fl (of_int k)" using assms(2) by (rule fl_mono)
  then have b: "fl y \<le> of_int k" by (simp only: hi)
  have c: "\<lceil>fl y\<rceil> = k" using a b by (simp add: ceiling_unique)
  have "\<bar>real_of_int k\<bar> < 2 ^ 30" using assms(3) by (simp flip: of_int_abs add: of_int_less_iff[of _ "2 ^ 30", where 'a = real, simplified])
  then have "\<bar>fl y\<bar> \<le> 2 ^ 30 + 1" using a b by (simp add: abs_if split: if_splits)
  also have "\<dots> \<le> (2::real) ^ 53" by simp
  finally show ?thesis using c by simp
qed

lemma SpatialHashGrid_eval:
  assumes "cs \<noteq> 0"
    and "of_int nx - 1 + 1 / 2 ^ 20 \<le> wx / cs" and "wx / cs \<le> of_int nx" and "\<bar>nx\<bar> < 2 ^ 30"
    and "of_int nz - 1 + 1 / 2 ^ 20 \<le> wz / cs" and "wz / cs \<le> of_int nz" and "\<bar>nz\<bar> < 2 ^ 30"
    and "0 \<le> nx * nz" and "nx * nz \<le> 4294967295"
  shows "SpatialHashGrid cs wx wz
           = Inr \<lparr>cellSize = cs, worldSizeX = wx, worldSizeZ = wz, numCellsX = nx, numCellsZ = nz,
                  cells = replicate (nat (nx * nz)) [], objectCells = []\<rparr>"
proof -
  note qx = ceiling_fl[OF assms(2-4)]
  note qz = ceiling_fl[OF assms(5-7)]
  have fx: "\<not> maxDouble < \<bar>fl (wx / cs)\<bar>" using qx maxDouble_large by linarith
  have fz: "\<not> maxDouble < \<bar>fl (wz / cs)\<bar>" using qz maxDouble_large by linarith
  show ?thesis
    using assms(1,8,9) fx fz qx qz by (simp add: SpatialHashGrid_def Let_def)
qed

lemma clampEdge:
  "20477 / 2048 \<le> fl (20481 / 2048 - fl 0.001) \<and> fl (20481 / 2048 - fl 0.001) \<le> 20479 / 2048"
proof -
  have a: "fl (20481 / 2048 - 1 / 2 ^ 9) = 20481 / 2048 - 1 / 2 ^ 9"
    using fl_dyadic[of 20477 11] by simp
  have b: "fl (20481 / 2048 - 1 / 2 ^ 10) = 20481 / 2048 - 1 / 2 ^ 10"
    using fl_dyadic[of 20479 11] by simp
  show ?thesis using upper_clamp_bounds[OF a b] by simp
qed

lemma gridEdge_sizes:
  "cellSize gridEdge = 5" "worldSizeX gridEdge = 20481 / 2048" "worldSizeZ gridEdge = 20481 / 2048"
  "numCellsX gridEdge = 3"
  by (simp_all add: gridEdge_def)

lemma cellCoordinateEdge:
  "cellCoordinate 5 (20481 / 2048) (40961 / 4096) = 1" "cellCoordinate 5 (20481 / 2048) 2 = 0"
  by (rule cellCoordinate_eval[OF clampEdge]; simp)+

lemma getCellIndexEdge:
  assumes "cellSize g = 5" and "worldSizeX g = 20481 / 2048" and "worldSizeZ g = 20481 / 2048"
    and "numCellsX g = 3"
  shows "getCellIndex g (40961 / 4096) 2 = 1"
proof -
  have "getCellIndex g (40961 / 4096) 2 = 1 + 0 * numCellsX g"
    by (rule getCellIndex_eval) (simp_all add: assms cellCoordinateEdge)
  then show ?thesis by simp
qed

lemma gridEdge_constructed:
  "SpatialHashGrid 5 (20481 / 2048) (20481 / 2048)
     = Inr \<lparr>cellSize = 5, worldSizeX = 20481 / 2048, worldSizeZ = 20481 / 2048,
            numCellsX = 3, numCellsZ = 3, cells = replicate 9 [], objectCells = []\<rparr>"
  using SpatialHashGrid_eval[of 5 3 "20481 / 2048" 3 "20481 / 2048"] by simp

lemma ranges_gridEdge:
  "minCellX gridEdge (Vector3 (40961 / 4096) 0 2) 0 = 2"
  "maxCellX gridEdge (Vector3 (40961 / 4096) 0 2) 0 = 1"
proof -
  have d: "fl (40961 / 4096) = 40961 / 4096" using fl_dyadic[of 40961 12] by simp
  show "minCellX gridEdge (Vector3 (40961 / 4096) 0 2) 0 = 2"
    unfolding minCellX_def gridEdge_sizes
    by (rule minCell_eval[where s = "40961 / 4096"]; simp add: d)
  show "maxCellX gridEdge (Vector3 (40961 / 4096) 0 2) 0 = 1"
    unfolding maxCellX_def gridEdge_sizes
    by (rule maxCell_eval[OF clampEdge, where s = "40961 / 4096"]; simp add: d)
qed

text \<open>
  The members of the containing cell are not always returned. On the grid of cell size 5
  over a 20 by 20 world, with object 1 at \<open>(7, 7)\<close>, the query at \<open>(7, 7)\<close> with radius -3
  computes the cell range 2 to 0 on the x axis and returns nothing. On a grid whose world
  size \<open>10 + 2^-11\<close> is less than 0.001 above a cell boundary, with object 1 at
  \<open>x = 10 + 2^-12\<close>, the query at that point with radius 0 computes the cell range 2 to 1
  on the x axis and returns nothing.
\<close>

theorem findNearbyObjects_nonpositive_radius_counterexample:
  "insertObject grid20 1 (Vector3 7 0 7) = Inr gridOne
   \<and> findNearbyObjects gridOne (Vector3 7 0 7) (- 3) = []
   \<and> cells gridOne ! nat (getCellIndex gridOne 7 7) = [1]
   \<and> (case SpatialHashGrid 5 (20481 / 2048) (20481 / 2048) of
         Inl e \<Rightarrow> Inl e | Inr g \<Rightarrow> insertObject g 1 (Vector3 (40961 / 4096) 0 2)) = Inr gridEdge
   \<and> 40961 / 4096 < worldSizeX gridEdge
   \<and> findNearbyObjects gridEdge (Vector3 (40961 / 4096) 0 2) 0 = []
   \<and> cells gridEdge ! nat (getCellIndex gridEdge (40961 / 4096) 2) = [1]"
proof -
  have a: "insertObject grid20 1 (Vector3 7 0 7) = Inr gridOne"
    by (simp add: grid_eval gridOne_def)
  have b: "findNearbyObjects gridOne (Vector3 7 0 7) (- 3) = []"
    by (rule findNearbyObjects_no_cell) (simp add: ranges_gridOne)
  have c: "cells gridOne ! nat (getCellIndex gridOne 7 7) = [1]"
    unfolding getCellIndex_gridOne by (simp add: gridOne_def grid20_def cells16)
  have d: "(case SpatialHashGrid 5 (20481 / 2048) (20481 / 2048) of
         Inl e \<Rightarrow> Inl e | Inr g \<Rightarrow> insertObject g 1 (Vector3 (40961 / 4096) 0 2)) = Inr gridEdge"
    by (simp add: gridEdge_constructed insertObject_def getCellIndexEdge cellAt_def setAdd_def
        gridEdge_def numeral_eq_Suc)
  have i: "40961 / 4096 < worldSizeX gridEdge" by (simp add: gridEdge_sizes)
  have e: "findNearbyObjects gridEdge (Vector3 (40961 / 4096) 0 2) 0 = []"
    by (rule findNearbyObjects_no_cell) (simp add: ranges_gridEdge)
  have f: "cells gridEdge ! nat (getCellIndex gridEdge (40961 / 4096) 2) = [1]"
    by (simp add: getCellIndexEdge gridEdge_sizes) (simp add: gridEdge_def)
  show ?thesis using a b c d i e f by simp
qed

section \<open>The resolver: what a call returns\<close>

lemma checkLoop_eq:
  assumes "a < length st"
  shows "checkLoop sys st a cs =
     (sys\<lparr>lastFrameCollisionChecks := lastFrameCollisionChecks sys + length cs,
          totalCollisionChecks := totalCollisionChecks sys + length cs\<rparr>,
      st[a := foldl (resolveCollider (playerRadius sys)) (st ! a) cs])"
  using assms
proof (induction cs arbitrary: sys st)
  case Nil
  then show ?case by simp
next
  case (Cons c cs)
  then show ?case by simp
qed

lemma nearbyColliders_counters [simp]:
  "nearbyColliders (sys\<lparr>lastFrameCollisionChecks := n\<rparr>) obs = nearbyColliders sys obs"
  by (simp add: nearbyColliders_def)

text \<open>What \<open>checkCollisions\<close> returns when there is a player collider.\<close>

lemma checkCollisions_Some:
  assumes hpc: "playerCollider sys = Some pc" and hcur: "cur < length st" and hprop: "prp < length st"
  shows "checkCollisions sys st cur prp =
     ((case spatialGrid sys of
         None \<Rightarrow> sys
       | Some g \<Rightarrow> sys\<lparr>activeColliders := collidersToCheck sys (st ! prp)\<rparr>)
        \<lparr>lastFrameCollisionChecks := length (collidersToCheck sys (st ! prp)),
         totalCollisionChecks := totalCollisionChecks sys + length (collidersToCheck sys (st ! prp))\<rparr>,
      st @ [Vector3 (vx (foldl (resolveCollider (playerRadius sys)) (st ! prp) (collidersToCheck sys (st ! prp))))
                    (vy (st ! cur))
                    (vz (foldl (resolveCollider (playerRadius sys)) (st ! prp) (collidersToCheck sys (st ! prp))))],
      length st)"
proof (cases "spatialGrid sys")
  case None
  show ?thesis
    using hpc hcur hprop None
    by (simp add: checkCollisions_def clone_def collidersToCheck_def checkLoop_eq nth_append Let_def)
next
  case (Some g)
  show ?thesis
    using hpc hcur hprop Some
    by (simp add: checkCollisions_def clone_def collidersToCheck_def checkLoop_eq nth_append Let_def)
qed

lemma resultOf_Some:
  assumes "playerCollider sys = Some pc" and "cur < length st" and "prp < length st"
  shows "resultOf (checkCollisions sys st cur prp) =
     Vector3 (vx (foldl (resolveCollider (playerRadius sys)) (st ! prp) (collidersToCheck sys (st ! prp))))
             (vy (st ! cur))
             (vz (foldl (resolveCollider (playerRadius sys)) (st ! prp) (collidersToCheck sys (st ! prp))))"
  by (simp add: checkCollisions_Some[OF assms] resultOf_def)

lemma resultOf_None:
  assumes "playerCollider sys = None"
  shows "resultOf (checkCollisions sys st cur prp) = st ! prp"
  using assms by (simp add: checkCollisions_def resultOf_def)

section \<open>The resolver: one collider\<close>

lemma resolveCollider_unfold:
  "resolveCollider r p c =
     (let d = surfaceDistance c p; cp = closestPoint c p in
      if d < r then
        if r - d > 0 \<and> d > 0 then
          let dir = normalize (Vector2 (vx p - v2x cp) (vz p - v2y cp))
          in Vector3 (vx p + v2x dir * (r - d)) (vy p) (vz p + v2y dir * (r - d))
        else if d = 0 then
          let k = minAxisOf [vx p - vx (boxMin c), vx (boxMax c) - vx p,
                             vz p - vz (boxMin c), vz (boxMax c) - vz p]
          in if k = 0 then Vector3 (vx (boxMin c) - r) (vy p) (vz p)
             else if k = 1 then Vector3 (vx (boxMax c) + r) (vy p) (vz p)
             else if k = 2 then Vector3 (vx p) (vy p) (vz (boxMin c) - r)
             else if k = 3 then Vector3 (vx p) (vy p) (vz (boxMax c) + r)
             else p
        else p
      else p)"
  by (simp add: resolveCollider_def surfaceDistance_def closestPoint_def boxMin_def boxMax_def Let_def)

lemma resolveCollider_far:
  assumes "r \<le> surfaceDistance c p"
  shows "resolveCollider r p c = p"
  using assms by (simp add: resolveCollider_unfold Let_def)

lemma resolveCollider_vy: "vy (resolveCollider r p c) = vy p"
  by (simp add: resolveCollider_unfold Let_def)

lemma foldl_resolveCollider_vy: "vy (foldl (resolveCollider r) p cs) = vy p"
  by (induction cs arbitrary: p) (simp_all add: resolveCollider_vy)

lemma minAxisOf_range: "minAxisOf ds \<in> {0, 1, 2, 3}"
  by (simp add: minAxisOf_def)

lemma surfaceDistance_nonneg: "0 \<le> surfaceDistance c p"
  by (simp add: surfaceDistance_def distanceTo_def Let_def)

lemma clamp_push:
  fixes x0 x1 px t :: real
  assumes "x0 \<le> x1" and "0 \<le> t"
  shows "max x0 (min (px + (px - max x0 (min px x1)) * t) x1) = max x0 (min px x1)"
proof -
  consider "px < x0" | "x0 \<le> px \<and> px \<le> x1" | "x1 < px" by linarith
  then show ?thesis
  proof cases
    case 1
    then have c: "max x0 (min px x1) = x0" using assms(1) by (simp add: max_def min_def)
    have "(px - x0) * t \<le> 0" using 1 assms(2) by (simp add: mult_nonpos_nonneg)
    then have "px + (px - x0) * t < x0" using 1 by linarith
    then show ?thesis unfolding c using assms(1) by (simp add: max_def min_def)
  next
    case 2
    then have c: "max x0 (min px x1) = px" by (simp add: max_def min_def)
    show ?thesis unfolding c using 2 by (simp add: max_def min_def)
  next
    case 3
    then have c: "max x0 (min px x1) = x1" using assms(1) by (simp add: max_def min_def)
    have "0 \<le> (px - x1) * t" using 3 assms(2) by simp
    then have "x1 < px + (px - x1) * t" using 3 by linarith
    then show ?thesis unfolding c using assms(1) by (simp add: max_def min_def)
  qed
qed

lemma scaled_norm:
  fixes a b s :: real
  shows "sqrt ((a * s) * (a * s) + (b * s) * (b * s)) = \<bar>s\<bar> * sqrt (a * a + b * b)"
proof -
  have "(a * s) * (a * s) + (b * s) * (b * s) = (s * s) * (a * a + b * b)"
    by (simp add: algebra_simps)
  then show ?thesis by (simp add: real_sqrt_mult)
qed

lemma box_ordered:
  assumes "0 \<le> vx (wsize c)" and "0 \<le> vz (wsize c)"
  shows "vx (boxMin c) \<le> vx (boxMax c)" and "vz (boxMin c) \<le> vz (boxMax c)"
  using assms by (simp_all add: boxMin_def boxMax_def sub3_def add3_def multiplyScalar_def)

lemma length2_offset:
  "length2 (Vector2 (vx p - v2x (closestPoint c p)) (vz p - v2y (closestPoint c p)))
   = surfaceDistance c p"
  by (simp add: length2_def surfaceDistance_def distanceTo_def Let_def)

lemma resolveCollider_push:
  assumes d0: "0 < surfaceDistance c p" and dr: "surfaceDistance c p < r"
  shows "resolveCollider r p c =
     Vector3 (vx p + (vx p - v2x (closestPoint c p)) * ((r - surfaceDistance c p) / surfaceDistance c p))
             (vy p)
             (vz p + (vz p - v2y (closestPoint c p)) * ((r - surfaceDistance c p) / surfaceDistance c p))"
proof -
  define d where "d = surfaceDistance c p"
  define dx where "dx = vx p - v2x (closestPoint c p)"
  define dz where "dz = vz p - v2y (closestPoint c p)"
  have dpos: "0 < d" "d < r" using d0 dr by (simp_all add: d_def)
  have len: "length2 (Vector2 dx dz) = d"
    unfolding dx_def dz_def d_def by (rule length2_offset)
  have nrm: "normalize (Vector2 dx dz) = Vector2 (dx * (1 / d)) (dz * (1 / d))"
    using dpos(1) by (simp add: normalize_def len Let_def)
  have "resolveCollider r p c =
      (let dir = normalize (Vector2 dx dz)
       in Vector3 (vx p + v2x dir * (r - d)) (vy p) (vz p + v2y dir * (r - d)))"
    using dpos unfolding d_def dx_def dz_def by (simp add: resolveCollider_unfold Let_def)
  also have "\<dots> = Vector3 (vx p + dx * (1 / d) * (r - d)) (vy p) (vz p + dz * (1 / d) * (r - d))"
    by (simp add: nrm Let_def)
  also have "\<dots> = Vector3 (vx p + dx * ((r - d) / d)) (vy p) (vz p + dz * ((r - d) / d))"
    by simp
  finally show ?thesis unfolding d_def dx_def dz_def .
qed

text \<open>Pushing out along the normal keeps the closest point and makes the distance the radius.\<close>

lemma push_distance:
  assumes sx: "vx (boxMin c) \<le> vx (boxMax c)" and sz: "vz (boxMin c) \<le> vz (boxMax c)"
    and d0: "0 < surfaceDistance c p" and dr: "surfaceDistance c p < r"
  shows "surfaceDistance c (resolveCollider r p c) = r"
proof -
  define d where "d = surfaceDistance c p"
  define t where "t = (r - d) / d"
  define cx where "cx = max (vx (boxMin c)) (min (vx p) (vx (boxMax c)))"
  define cz where "cz = max (vz (boxMin c)) (min (vz p) (vz (boxMax c)))"
  define dx where "dx = vx p - cx"
  define dz where "dz = vz p - cz"
  have cp: "closestPoint c p = Vector2 cx cz"
    by (simp add: closestPoint_def cx_def cz_def)
  have dpos: "0 < d" "d < r" using d0 dr by (simp_all add: d_def)
  have d_eq: "d = sqrt (dx * dx + dz * dz)"
    by (simp add: d_def surfaceDistance_def distanceTo_def Let_def cp dx_def dz_def)
  have t0: "0 \<le> t" using dpos by (simp add: t_def)
  have res: "resolveCollider r p c = Vector3 (vx p + dx * t) (vy p) (vz p + dz * t)"
    using resolveCollider_push[OF d0 dr] by (simp add: cp dx_def dz_def t_def d_def)
  have cx': "max (vx (boxMin c)) (min (vx p + dx * t) (vx (boxMax c))) = cx"
    unfolding dx_def cx_def using clamp_push[OF sx t0] .
  have cz': "max (vz (boxMin c)) (min (vz p + dz * t) (vz (boxMax c))) = cz"
    unfolding dz_def cz_def using clamp_push[OF sz t0] .
  have cp': "closestPoint c (Vector3 (vx p + dx * t) (vy p) (vz p + dz * t)) = Vector2 cx cz"
    by (simp add: closestPoint_def cx' cz')
  have "surfaceDistance c (resolveCollider r p c)
        = sqrt ((vx p + dx * t - cx) * (vx p + dx * t - cx)
              + (vz p + dz * t - cz) * (vz p + dz * t - cz))"
    unfolding res by (simp add: surfaceDistance_def distanceTo_def Let_def cp')
  also have "\<dots> = sqrt ((dx * (1 + t)) * (dx * (1 + t)) + (dz * (1 + t)) * (dz * (1 + t)))"
  proof -
    have "vx p + dx * t - cx = dx * (1 + t)" "vz p + dz * t - cz = dz * (1 + t)"
      by (simp_all add: dx_def dz_def algebra_simps)
    then show ?thesis by simp
  qed
  also have "\<dots> = \<bar>1 + t\<bar> * sqrt (dx * dx + dz * dz)"
    by (rule scaled_norm)
  also have "\<dots> = (1 + t) * d" using t0 d_eq by simp
  also have "\<dots> = r" using dpos(1) by (simp add: t_def field_simps)
  finally show ?thesis .
qed

lemma inside_box:
  assumes sx: "vx (boxMin c) \<le> vx (boxMax c)" and sz: "vz (boxMin c) \<le> vz (boxMax c)"
    and d0: "surfaceDistance c p = 0"
  shows "vx (boxMin c) \<le> vx p \<and> vx p \<le> vx (boxMax c)
       \<and> vz (boxMin c) \<le> vz p \<and> vz p \<le> vz (boxMax c)"
proof -
  define dx where "dx = vx p - max (vx (boxMin c)) (min (vx p) (vx (boxMax c)))"
  define dz where "dz = vz p - max (vz (boxMin c)) (min (vz p) (vz (boxMax c)))"
  have "sqrt (dx * dx + dz * dz) = 0"
    using d0 by (simp add: surfaceDistance_def distanceTo_def closestPoint_def Let_def dx_def dz_def)
  then have "dx * dx + dz * dz = 0" by simp
  then have "dx = 0" "dz = 0" by (simp_all add: sum_squares_eq_zero_iff)
  then have "vx p = max (vx (boxMin c)) (min (vx p) (vx (boxMax c)))"
    and "vz p = max (vz (boxMin c)) (min (vz p) (vz (boxMax c)))"
    by (simp_all add: dx_def dz_def)
  then show ?thesis using sx sz by (simp add: max_def min_def split: if_splits)
qed

lemma distance_after_x:
  fixes x0 x1 z0 z1 nx pz r :: real
  assumes "vx (boxMin c) = x0" "vx (boxMax c) = x1" "vz (boxMin c) = z0" "vz (boxMax c) = z1"
    and "z0 \<le> pz" "pz \<le> z1" and "max x0 (min nx x1) = bx" and "\<bar>nx - bx\<bar> = r"
  shows "surfaceDistance c (Vector3 nx py pz) = r"
proof -
  have cz: "max z0 (min pz z1) = pz" using assms(5,6) by (simp add: max_def min_def)
  have "surfaceDistance c (Vector3 nx py pz) = sqrt ((nx - bx) * (nx - bx) + (pz - pz) * (pz - pz))"
    by (simp add: surfaceDistance_def distanceTo_def closestPoint_def Let_def assms(1-4) assms(7) cz)
  also have "\<dots> = \<bar>nx - bx\<bar>" by simp
  finally show ?thesis using assms(8) by simp
qed

lemma distance_after_z:
  fixes x0 x1 z0 z1 nz px r :: real
  assumes "vx (boxMin c) = x0" "vx (boxMax c) = x1" "vz (boxMin c) = z0" "vz (boxMax c) = z1"
    and "x0 \<le> px" "px \<le> x1" and "max z0 (min nz z1) = bz" and "\<bar>nz - bz\<bar> = r"
  shows "surfaceDistance c (Vector3 px py nz) = r"
proof -
  have cx: "max x0 (min px x1) = px" using assms(5,6) by (simp add: max_def min_def)
  have "surfaceDistance c (Vector3 px py nz) = sqrt ((px - px) * (px - px) + (nz - bz) * (nz - bz))"
    by (simp add: surfaceDistance_def distanceTo_def closestPoint_def Let_def assms(1-4) assms(7) cx)
  also have "\<dots> = \<bar>nz - bz\<bar>" by simp
  finally show ?thesis using assms(8) by simp
qed

text \<open>Ejection through a side puts the position at the radius from that side.\<close>

lemma eject_distance:
  assumes sx: "vx (boxMin c) \<le> vx (boxMax c)" and sz: "vz (boxMin c) \<le> vz (boxMax c)"
    and d0: "surfaceDistance c p = 0" and r: "0 < r"
  shows "surfaceDistance c (resolveCollider r p c) = r"
proof -
  define x0 where "x0 = vx (boxMin c)"
  define x1 where "x1 = vx (boxMax c)"
  define z0 where "z0 = vz (boxMin c)"
  define z1 where "z1 = vz (boxMax c)"
  define k where "k = minAxisOf [vx p - x0, x1 - vx p, vz p - z0, z1 - vz p]"
  note b = x0_def[symmetric] x1_def[symmetric] z0_def[symmetric] z1_def[symmetric]
  have ins: "x0 \<le> vx p" "vx p \<le> x1" "z0 \<le> vz p" "vz p \<le> z1"
    using inside_box[OF sx sz d0] by (simp_all add: x0_def x1_def z0_def z1_def)
  have ord: "x0 \<le> x1" "z0 \<le> z1" using sx sz by (simp_all add: x0_def x1_def z0_def z1_def)
  have res: "resolveCollider r p c =
       (if k = 0 then Vector3 (x0 - r) (vy p) (vz p)
        else if k = 1 then Vector3 (x1 + r) (vy p) (vz p)
        else if k = 2 then Vector3 (vx p) (vy p) (z0 - r)
        else if k = 3 then Vector3 (vx p) (vy p) (z1 + r)
        else p)"
    using d0 r by (simp add: resolveCollider_unfold Let_def k_def[symmetric] b)
  have kr: "k = 0 \<or> k = 1 \<or> k = 2 \<or> k = 3"
    using minAxisOf_range unfolding k_def by blast
  have lo_x: "max x0 (min (x0 - r) x1) = x0" using r ord by (simp add: max_def min_def)
  have hi_x: "max x0 (min (x1 + r) x1) = x1" using r ord by (simp add: max_def min_def)
  have lo_z: "max z0 (min (z0 - r) z1) = z0" using r ord by (simp add: max_def min_def)
  have hi_z: "max z0 (min (z1 + r) z1) = z1" using r ord by (simp add: max_def min_def)
  have a0: "surfaceDistance c (Vector3 (x0 - r) (vy p) (vz p)) = r"
    using distance_after_x[OF b ins(3,4) lo_x] r by simp
  have a1: "surfaceDistance c (Vector3 (x1 + r) (vy p) (vz p)) = r"
    using distance_after_x[OF b ins(3,4) hi_x] r by simp
  have a2: "surfaceDistance c (Vector3 (vx p) (vy p) (z0 - r)) = r"
    using distance_after_z[OF b ins(1,2) lo_z] r by simp
  have a3: "surfaceDistance c (Vector3 (vx p) (vy p) (z1 + r)) = r"
    using distance_after_z[OF b ins(1,2) hi_z] r by simp
  from kr show ?thesis unfolding res using a0 a1 a2 a3 by auto
qed

text \<open>After one collider has been resolved, the position is not closer to it than the radius.\<close>

lemma resolveCollider_outside:
  assumes "0 \<le> vx (wsize c)" and "0 \<le> vz (wsize c)"
  shows "r \<le> surfaceDistance c (resolveCollider r p c)"
proof -
  note ord = box_ordered[OF assms]
  consider "r \<le> surfaceDistance c p" | "0 < surfaceDistance c p \<and> surfaceDistance c p < r"
    | "surfaceDistance c p = 0 \<and> 0 < r"
    using surfaceDistance_nonneg[of c p] by linarith
  then show ?thesis
  proof cases
    case 1
    then show ?thesis by (simp add: resolveCollider_far)
  next
    case 2
    then show ?thesis using push_distance[OF ord] by simp
  next
    case 3
    then show ?thesis using eject_distance[OF ord] by simp
  qed
qed

lemma minAxisOf_first_minimum:
  fixes d0 d1 d2 d3 :: real
  shows "minAxisOf [d0, d1, d2, d3] =
     (if d0 \<le> d1 \<and> d0 \<le> d2 \<and> d0 \<le> d3 then 0
      else if d1 \<le> d2 \<and> d1 \<le> d3 then 1
      else if d2 \<le> d3 then 2 else 3)"
  by (auto simp: minAxisOf_def)

lemma distanceTo_same_x: "distanceTo (Vector2 a b) (Vector2 a c) = \<bar>b - c\<bar>"
  by (simp add: distanceTo_def)

lemma distanceTo_same_y: "distanceTo (Vector2 a c) (Vector2 b c) = \<bar>a - b\<bar>"
  by (simp add: distanceTo_def)

lemma length2_axis: "length2 (Vector2 0 b) = \<bar>b\<bar>" "length2 (Vector2 a 0) = \<bar>a\<bar>"
  by (simp_all add: length2_def)

lemmas resolver_eval = resolverWith_def createPlayerCollider_def addWallCollider_def
  CollisionSystem_def box22_def box42_def

lemmas collide_eval = resolveCollider_def multiplyScalar_def sub3_def add3_def
  distanceTo_same_x distanceTo_same_y length2_axis normalize_def minAxisOf_first_minimum

lemma resolver_fields:
  "colliders (resolverWith c start) = [\<lparr>wposition = wposition c, wsize = wsize c, mesh = mesh c\<rparr>]"
  "playerRadius (resolverWith c start) = 1 / 2"
  "playerCollider (resolverWith c start) = Some \<lparr>pposition = start, radius = 1 / 2, height = 9 / 5\<rparr>"
  "spatialGrid (resolverWith c start) = None"
  by (simp_all add: resolverWith_def createPlayerCollider_def addWallCollider_def CollisionSystem_def)

section \<open>The resolver: vertical position\<close>

text \<open>
  C4 (Y-passthrough), as amended. With a player collider, the Y coordinate of the position
  that \<open>checkCollisions\<close> returns is the Y coordinate of the current position, whatever
  happens to X and Z. Without a player collider the proposed position is returned as it
  is, with its own Y coordinate.
\<close>

theorem y_passthrough:
  assumes "cur < length st" and "prp < length st"
  shows "(playerCollider sys \<noteq> None \<longrightarrow>
            vy (resultOf (checkCollisions sys st cur prp)) = vy (st ! cur))
       \<and> (playerCollider sys = None \<longrightarrow>
            vy (resultOf (checkCollisions sys st cur prp)) = vy (st ! prp))"
proof (cases "playerCollider sys")
  case None
  then show ?thesis by (simp add: resultOf_None)
next
  case (Some pc)
  then show ?thesis by (simp add: resultOf_Some[OF Some assms])
qed

theorem y_passthrough_witness:
  "playerCollider (resolverWith box22 (Vector3 0 0 3)) \<noteq> None
   \<and> resultOf (checkCollisions (resolverWith box22 (Vector3 0 0 3))
                 [Vector3 0 7 3, Vector3 0 9 (5 / 4)] 0 1) = Vector3 0 7 (3 / 2)
   \<and> vy (resultOf (checkCollisions (resolverWith box22 (Vector3 0 0 3))
                 [Vector3 0 7 3, Vector3 0 9 (5 / 4)] 0 1)) = vy ([Vector3 0 7 3, Vector3 0 9 (5 / 4)] ! 0)"
proof -
  have v: "resultOf (checkCollisions (resolverWith box22 (Vector3 0 0 3))
                 [Vector3 0 7 3, Vector3 0 9 (5 / 4)] 0 1) = Vector3 0 7 (3 / 2)"
    by (simp add: resultOf_def checkCollisions_def clone_def resolver_eval collide_eval)
  show ?thesis
    using y_passthrough[of 0 "[Vector3 0 7 3, Vector3 0 9 (5 / 4)]" 1 "resolverWith box22 (Vector3 0 0 3)"] v
    by (simp add: resolver_fields)
qed

text \<open>
  Without a player collider the returned Y coordinate is the proposed one, not the current
  one.
\<close>

theorem y_passthrough_counterexample:
  "vy (resultOf (checkCollisions CollisionSystem [Vector3 0 0 0, Vector3 1 1 1] 0 1)) = 1
   \<and> vy ([Vector3 0 0 0, Vector3 1 1 1] ! 0) = 0"
  by (simp add: resultOf_def checkCollisions_def CollisionSystem_def)

section \<open>The resolver: positions that overlap no collider\<close>

lemma foldl_resolveCollider_far:
  assumes "\<forall>c \<in> set cs. r \<le> surfaceDistance c p"
  shows "foldl (resolveCollider r) p cs = p"
  using assms by (induction cs) (simp_all add: resolveCollider_far)

lemma find_in_set: "find P xs = Some x \<Longrightarrow> x \<in> set xs"
  by (induction xs) (auto split: if_splits)

lemma nearbyColliders_acc_subset:
  "set (foldl (\<lambda>active ob. case find (\<lambda>c. mesh c = ob) cs of
                              None \<Rightarrow> active
                            | Some matchingCollider \<Rightarrow> setAdd matchingCollider active)
              acc obs) \<subseteq> set acc \<union> set cs"
proof (induction obs arbitrary: acc)
  case Nil
  then show ?case by simp
next
  case (Cons ob obs)
  show ?case
  proof (cases "find (\<lambda>c. mesh c = ob) cs")
    case None
    then show ?thesis using Cons.IH[of acc] by simp
  next
    case (Some m)
    then have "m \<in> set cs" by (rule find_in_set)
    then show ?thesis using Cons.IH[of "setAdd m acc"] Some by (auto simp: set_setAdd)
  qed
qed

lemma collidersToCheck_subset: "set (collidersToCheck sys p) \<subseteq> set (colliders sys)"
proof (cases "spatialGrid sys")
  case None
  then show ?thesis by (simp add: collidersToCheck_def)
next
  case (Some g)
  then show ?thesis
    using nearbyColliders_acc_subset[of "colliders sys" "[]"]
    by (simp add: collidersToCheck_def nearbyColliders_def)
qed

text \<open>
  C5 (idempotence on non-overlap), as amended. If the proposed position is at least the
  player radius away from the box of every wall collider, \<open>checkCollisions\<close> returns the
  X and Z coordinates of the proposed position; the Y coordinate returned is that of the
  current position when there is a player collider, and that of the proposed position
  when there is none.
\<close>

theorem no_overlap_keeps_xz:
  assumes "\<forall>c \<in> set (colliders sys). playerRadius sys \<le> surfaceDistance c (st ! prp)"
    and "cur < length st" and "prp < length st"
  shows "resultOf (checkCollisions sys st cur prp) =
           Vector3 (vx (st ! prp))
                   (if playerCollider sys = None then vy (st ! prp) else vy (st ! cur))
                   (vz (st ! prp))"
proof (cases "playerCollider sys")
  case None
  then show ?thesis by (simp add: resultOf_None)
next
  case (Some pc)
  have "\<forall>c \<in> set (collidersToCheck sys (st ! prp)). playerRadius sys \<le> surfaceDistance c (st ! prp)"
    using assms(1) collidersToCheck_subset by blast
  then have "foldl (resolveCollider (playerRadius sys)) (st ! prp) (collidersToCheck sys (st ! prp)) = st ! prp"
    by (rule foldl_resolveCollider_far)
  then show ?thesis using Some by (simp add: resultOf_Some[OF Some assms(2,3)])
qed

theorem no_overlap_keeps_xz_witness:
  "colliders (resolverWith box22 (Vector3 3 0 0)) = [box22]
   \<and> playerRadius (resolverWith box22 (Vector3 3 0 0))
         \<le> surfaceDistance box22 ([Vector3 3 0 0, Vector3 3 1 0] ! 1)
   \<and> resultOf (checkCollisions (resolverWith box22 (Vector3 3 0 0))
                 [Vector3 3 0 0, Vector3 3 1 0] 0 1) = Vector3 3 0 0"
proof -
  have cs: "colliders (resolverWith box22 (Vector3 3 0 0)) = [box22]"
    by (simp add: resolver_fields box22_def)
  have d: "playerRadius (resolverWith box22 (Vector3 3 0 0))
         \<le> surfaceDistance box22 ([Vector3 3 0 0, Vector3 3 1 0] ! 1)"
    by (simp add: resolver_fields surfaceDistance_def closestPoint_def boxMin_def boxMax_def
        box22_def multiplyScalar_def sub3_def add3_def distanceTo_same_y)
  have h: "\<forall>c \<in> set (colliders (resolverWith box22 (Vector3 3 0 0))).
       playerRadius (resolverWith box22 (Vector3 3 0 0))
         \<le> surfaceDistance c ([Vector3 3 0 0, Vector3 3 1 0] ! 1)"
    using d by (simp only: cs list.set ball_simps insert_iff empty_iff)
  have "resultOf (checkCollisions (resolverWith box22 (Vector3 3 0 0))
                 [Vector3 3 0 0, Vector3 3 1 0] 0 1) = Vector3 3 0 0"
    using no_overlap_keeps_xz[OF h, of 0] by (simp add: resolver_fields)
  then show ?thesis using cs d by blast
qed

text \<open>
  The returned position is not the proposed one in all three coordinates: its Y
  coordinate is the current one.
\<close>

theorem no_overlap_unmodified_counterexample:
  "colliders (resolverWith box22 (Vector3 3 0 0)) = [box22]
   \<and> playerRadius (resolverWith box22 (Vector3 3 0 0)) = 1 / 2
   \<and> surfaceDistance box22 ([Vector3 3 0 0, Vector3 3 1 0] ! 1) = 2
   \<and> resultOf (checkCollisions (resolverWith box22 (Vector3 3 0 0))
                 [Vector3 3 0 0, Vector3 3 1 0] 0 1) = Vector3 3 0 0
   \<and> [Vector3 3 0 0, Vector3 3 1 0] ! 1 = Vector3 3 1 0"
proof -
  have d: "surfaceDistance box22 ([Vector3 3 0 0, Vector3 3 1 0] ! 1) = 2"
    by (simp add: surfaceDistance_def closestPoint_def boxMin_def boxMax_def
        box22_def multiplyScalar_def sub3_def add3_def distanceTo_same_y)
  have v: "resultOf (checkCollisions (resolverWith box22 (Vector3 3 0 0))
                 [Vector3 3 0 0, Vector3 3 1 0] 0 1) = Vector3 3 0 0"
    by (simp add: resultOf_def checkCollisions_def clone_def resolver_eval collide_eval)
  show ?thesis using d v by (simp add: resolver_fields box22_def)
qed

section \<open>The resolver: what a call leaves unchanged\<close>

text \<open>
  C10 (resolution is read-only on collision state), as amended. A call of
  \<open>checkCollisions\<close>, with or without a grid attached, returns a system with the same
  wall colliders, player collider and grid (cells and tracking map), and a store in which
  every vector that existed before the call, the two arguments included, has its old
  value. With a player collider the returned reference is a new object; without one it
  is the proposed position object itself.
\<close>

theorem checkCollisions_frame:
  assumes "cur < length st" and "prp < length st"
    and "checkCollisions sys st cur prp = (sys', st', r)"
  shows "colliders sys' = colliders sys \<and> playerCollider sys' = playerCollider sys
       \<and> spatialGrid sys' = spatialGrid sys
       \<and> take (length st) st' = st \<and> st' ! cur = st ! cur \<and> st' ! prp = st ! prp
       \<and> (playerCollider sys \<noteq> None \<longrightarrow> r = length st \<and> length st' = Suc (length st))
       \<and> (playerCollider sys = None \<longrightarrow> r = prp \<and> st' = st)"
proof (cases "playerCollider sys")
  case None
  then show ?thesis using assms(3) by (simp add: checkCollisions_def)
next
  case (Some pc)
  show ?thesis
    using assms(3) assms(1,2) Some
    unfolding checkCollisions_Some[OF Some assms(1,2)]
    by (auto simp: nth_append split: option.splits)
qed

theorem checkCollisions_frame_witness:
  "checkCollisions (resolverWith box22 (Vector3 0 0 3)) [Vector3 0 7 3, Vector3 0 9 (5 / 4)] 0 1
     = ((resolverWith box22 (Vector3 0 0 3))
          \<lparr>lastFrameCollisionChecks := 1, totalCollisionChecks := 1\<rparr>,
        [Vector3 0 7 3, Vector3 0 9 (5 / 4), Vector3 0 7 (3 / 2)], 2)
   \<and> colliders ((resolverWith box22 (Vector3 0 0 3))
          \<lparr>lastFrameCollisionChecks := 1, totalCollisionChecks := 1\<rparr>)
       = colliders (resolverWith box22 (Vector3 0 0 3))
   \<and> take (length [Vector3 0 7 3, Vector3 0 9 (5 / 4)])
          [Vector3 0 7 3, Vector3 0 9 (5 / 4), Vector3 0 7 (3 / 2)]
       = [Vector3 0 7 3, Vector3 0 9 (5 / 4)]
   \<and> (2::nat) = length [Vector3 0 7 3, Vector3 0 9 (5 / 4)]"
proof -
  have run: "checkCollisions (resolverWith box22 (Vector3 0 0 3)) [Vector3 0 7 3, Vector3 0 9 (5 / 4)] 0 1
     = ((resolverWith box22 (Vector3 0 0 3))
          \<lparr>lastFrameCollisionChecks := 1, totalCollisionChecks := 1\<rparr>,
        [Vector3 0 7 3, Vector3 0 9 (5 / 4), Vector3 0 7 (3 / 2)], 2)"
    by (simp add: checkCollisions_def clone_def resolver_eval collide_eval)
  show ?thesis
    using checkCollisions_frame[OF _ _ run] run by simp
qed

text \<open>
  Without a player collider the returned reference is not new: it is the reference of the
  proposed position, which existed before the call.
\<close>

theorem checkCollisions_fresh_counterexample:
  "checkCollisions CollisionSystem [Vector3 0 0 0, Vector3 1 1 1] 0 1
     = (CollisionSystem, [Vector3 0 0 0, Vector3 1 1 1], 1)
   \<and> (1::nat) < length [Vector3 0 0 0, Vector3 1 1 1]"
  by (simp add: checkCollisions_def CollisionSystem_def)

section \<open>The resolver: ejection from the centre of a box\<close>

text \<open>
  C2 (axis-ejection determinism). With a single box of size \<open>(4, 2)\<close> centred at
  \<open>(0, 0)\<close>, player radius \<open>1/2\<close> and the proposed position at the centre, the sides
  left, right, near and far are at distances 2, 2, 1 and 1; the first side at the minimum
  distance is near, so X stays 0 and Z becomes \<open>boxMin.z - radius = -3/2\<close>. In general
  the side chosen is the first, in the order left, right, near, far, whose distance is
  the minimum.
\<close>

theorem axis_ejection_at_center:
  assumes "colliders sys = [c]"
    and "vx (wposition c) = 0" and "vz (wposition c) = 0"
    and "vx (wsize c) = 4" and "vz (wsize c) = 2"
    and "playerRadius sys = 1 / 2" and "playerCollider sys = Some pc" and "spatialGrid sys = None"
    and "cur < length st" and "prp < length st"
    and "vx (st ! prp) = 0" and "vz (st ! prp) = 0"
  shows "resultOf (checkCollisions sys st cur prp) = Vector3 0 (vy (st ! cur)) (- (3 / 2))
       \<and> vz (boxMin c) - playerRadius sys = - (3 / 2)
       \<and> minAxisOf [dl, dr, dn, df] =
           (if dl \<le> dr \<and> dl \<le> dn \<and> dl \<le> df then 0
            else if dr \<le> dn \<and> dr \<le> df then 1
            else if dn \<le> df then 2 else 3)"
proof -
  have chk: "collidersToCheck sys (st ! prp) = [c]"
    using assms(1,8) by (simp add: collidersToCheck_def)
  have bx: "vx (boxMin c) = - 2" "vx (boxMax c) = 2" "vz (boxMin c) = - 1" "vz (boxMax c) = 1"
    using assms(2-5) by (simp_all add: boxMin_def boxMax_def sub3_def add3_def multiplyScalar_def)
  have cp: "closestPoint c (st ! prp) = Vector2 0 0"
    using assms(11,12) by (simp add: closestPoint_def bx)
  have d: "surfaceDistance c (st ! prp) = 0"
    using assms(11,12) by (simp add: surfaceDistance_def distanceTo_def cp)
  have k: "minAxisOf [2, 2, 1, 1] = 2"
    by (simp add: minAxisOf_first_minimum)
  have "resolveCollider (1 / 2) (st ! prp) c = Vector3 0 (vy (st ! prp)) (- (3 / 2))"
    using assms(11,12) by (simp add: resolveCollider_unfold Let_def d k bx)
  then have "resolveCollider (playerRadius sys) (st ! prp) c = Vector3 0 (vy (st ! prp)) (- (3 / 2))"
    unfolding assms(6) .
  then have "resultOf (checkCollisions sys st cur prp) = Vector3 0 (vy (st ! cur)) (- (3 / 2))
       \<and> vz (boxMin c) - playerRadius sys = - (3 / 2)"
    by (simp add: resultOf_Some[OF assms(7,9,10)] chk bx assms(6))
  then show ?thesis using minAxisOf_first_minimum[of dl dr dn df] by blast
qed

theorem axis_ejection_at_center_witness:
  "resultOf (checkCollisions (resolverWith box42 (Vector3 0 1 0)) [Vector3 0 1 0, Vector3 0 1 0] 0 1)
     = Vector3 0 1 (- (3 / 2))
   \<and> vz (boxMin box42) - playerRadius (resolverWith box42 (Vector3 0 1 0)) = - (3 / 2)
   \<and> minAxisOf [2, 2, 1, 1] = 2"
proof -
  let ?S = "resolverWith box42 (Vector3 0 1 0)"
  let ?pc = "\<lparr>pposition = Vector3 0 1 0, radius = 1 / 2, height = 9 / 5\<rparr>"
  let ?st = "[Vector3 0 1 0, Vector3 0 1 0]"
  have h1: "colliders ?S = [box42]" by (simp add: resolver_fields box42_def)
  have h2: "vx (wposition box42) = 0" "vz (wposition box42) = 0"
    "vx (wsize box42) = 4" "vz (wsize box42) = 2" by (simp_all add: box42_def)
  have h3: "playerRadius ?S = 1 / 2" "playerCollider ?S = Some ?pc" "spatialGrid ?S = None"
    by (simp_all add: resolver_fields)
  have h4: "0 < length ?st" "1 < length ?st" "vx (?st ! 1) = 0" "vz (?st ! 1) = 0"
    by simp_all
  show ?thesis
    using axis_ejection_at_center[OF h1 h2 h3 h4, of 2 2 1 1] by simp
qed

section \<open>The resolver: approaching a box\<close>

lemma surfaceDistance_y: "surfaceDistance c (Vector3 (vx a) y (vz a)) = surfaceDistance c a"
  by (simp add: surfaceDistance_def closestPoint_def)

lemma updateTranslation_props:
  assumes hpc: "playerCollider sys = Some pc" and ht: "t < length st"
    and run: "updateTranslation sys st t f l = (sys', st')"
  shows "colliders sys' = colliders sys \<and> playerRadius sys' = playerRadius sys
       \<and> playerCollider sys' = playerCollider sys \<and> spatialGrid sys' = spatialGrid sys
       \<and> t < length st'
       \<and> st' ! t = Vector3
            (vx (foldl (resolveCollider (playerRadius sys)) (add3 (add3 (st ! t) f) l)
                   (collidersToCheck sys (add3 (add3 (st ! t) f) l))))
            (vy (st ! t))
            (vz (foldl (resolveCollider (playerRadius sys)) (add3 (add3 (st ! t) f) l)
                   (collidersToCheck sys (add3 (add3 (st ! t) f) l))))"
proof -
  define st3 where "st3 = st @ [st ! t, add3 (add3 (st ! t) f) l]"
  have l3: "length st3 = length st + 2" by (simp add: st3_def)
  have cur: "length st < length st3" and prp: "Suc (length st) < length st3" using l3 by simp_all
  have vcur: "st3 ! length st = st ! t" by (simp add: st3_def nth_append)
  have vprp: "st3 ! Suc (length st) = add3 (add3 (st ! t) f) l" by (simp add: st3_def nth_append)
  have unf: "updateTranslation sys st t f l =
      (case checkCollisions sys st3 (length st) (Suc (length st)) of
         (sys', st4, adjustedPosition) \<Rightarrow> (sys', st4[t := st4 ! adjustedPosition]))"
    using ht by (simp add: updateTranslation_def clone_def Let_def st3_def nth_append)
  show ?thesis
    using run ht unfolding unf checkCollisions_Some[OF hpc cur prp] vcur vprp
    by (auto simp: l3 nth_append split: option.splits)
qed

lemma walk_outside:
  assumes "colliders sys = [c]" and "0 \<le> vx (wsize c)" and "0 \<le> vz (wsize c)"
    and "playerCollider sys = Some pc" and "spatialGrid sys = None" and "t < length st"
  shows "length (walk sys st t fs) = length fs
       \<and> (\<forall>q \<in> set (walk sys st t fs). playerRadius sys \<le> surfaceDistance c q)"
  using assms
proof (induction fs arbitrary: sys st)
  case Nil
  then show ?case by simp
next
  case (Cons f fs)
  obtain sys' st' where run: "updateTranslation sys st t f (Vector3 0 0 0) = (sys', st')"
    by (cases "updateTranslation sys st t f (Vector3 0 0 0)") auto
  note props = updateTranslation_props[OF Cons.prems(4) Cons.prems(6) run]
  have chk: "collidersToCheck sys (add3 (add3 (st ! t) f) (Vector3 0 0 0)) = [c]"
    using Cons.prems(1,5) by (simp add: collidersToCheck_def)
  have here: "playerRadius sys \<le> surfaceDistance c (st' ! t)"
    using props resolveCollider_outside[OF Cons.prems(2,3)]
    by (simp add: chk surfaceDistance_y)
  have rest: "length (walk sys' st' t fs) = length fs
       \<and> (\<forall>q \<in> set (walk sys' st' t fs). playerRadius sys' \<le> surfaceDistance c q)"
    using Cons.IH[of sys' st'] props Cons.prems by simp
  show ?case using run here rest props by simp
qed

lemma walk_single_collider:
  assumes "colliders sys = [c]" and "playerCollider sys = Some pc" and "spatialGrid sys = None"
    and "t < length st"
  shows "walk sys st t fs = walkPositions (playerRadius sys) c (st ! t) fs"
  using assms
proof (induction fs arbitrary: sys st)
  case Nil
  then show ?case by simp
next
  case (Cons f fs)
  obtain sys' st' where run: "updateTranslation sys st t f (Vector3 0 0 0) = (sys', st')"
    by (cases "updateTranslation sys st t f (Vector3 0 0 0)") auto
  note props = updateTranslation_props[OF Cons.prems(2) Cons.prems(4) run]
  have chk: "collidersToCheck sys (add3 (add3 (st ! t) f) (Vector3 0 0 0)) = [c]"
    using Cons.prems(1,3) by (simp add: collidersToCheck_def)
  have here: "st' ! t = Vector3
       (vx (resolveCollider (playerRadius sys) (add3 (add3 (st ! t) f) (Vector3 0 0 0)) c))
       (vy (st ! t))
       (vz (resolveCollider (playerRadius sys) (add3 (add3 (st ! t) f) (Vector3 0 0 0)) c))"
    using props by (simp add: chk)
  have rest: "walk sys' st' t fs = walkPositions (playerRadius sys') c (st' ! t) fs"
    using Cons.IH[of sys' st'] props Cons.prems by simp
  show ?case using run rest props here by (simp add: Let_def)
qed

text \<open>
  C1 (no penetration). A resolver with the single box of size \<open>(2, 2)\<close> centred at
  \<open>(0, 0)\<close> and player radius \<open>1/2\<close>; the camera starts at \<open>(0, 3)\<close> and moves towards
  \<open>(0, 0)\<close> in steps of lengths between 0 and 2, each resolved by \<open>checkCollisions\<close>.
  After every step the camera is at least \<open>1/2 - 1/1000000\<close> away from the box, so it is
  never inside it.
\<close>

theorem no_penetration:
  assumes "colliders sys = [c]"
    and "vx (wposition c) = 0" and "vz (wposition c) = 0"
    and "vx (wsize c) = 2" and "vz (wsize c) = 2"
    and "playerRadius sys = 1 / 2" and "playerCollider sys = Some pc" and "spatialGrid sys = None"
    and "t < length st" and "vx (st ! t) = 0" and "vz (st ! t) = 3"
    and "\<forall>s \<in> set steps. 0 < s \<and> s < 2"
  shows "length (walk sys st t (map (\<lambda>s. Vector3 0 0 (- s)) steps)) = length steps
       \<and> (\<forall>q \<in> set (walk sys st t (map (\<lambda>s. Vector3 0 0 (- s)) steps)).
             1 / 2 - 1 / 1000000 \<le> surfaceDistance c q)"
proof -
  have "length (walk sys st t (map (\<lambda>s. Vector3 0 0 (- s)) steps))
          = length (map (\<lambda>s. Vector3 0 0 (- s)) steps)
       \<and> (\<forall>q \<in> set (walk sys st t (map (\<lambda>s. Vector3 0 0 (- s)) steps)).
             playerRadius sys \<le> surfaceDistance c q)"
    using walk_outside[OF assms(1) _ _ assms(7,8,9)] assms(4,5) by simp
  then show ?thesis using assms(6) by auto
qed

theorem no_penetration_witness:
  "list_all (\<lambda>s. 0 < s \<and> s < 2) [1, 1, 9 / 5 :: real]
   \<and> walk (resolverWith box22 (Vector3 0 0 3)) [Vector3 0 0 3] 0
        (map (\<lambda>s. Vector3 0 0 (- s)) [1, 1, 9 / 5])
      = [Vector3 0 0 2, Vector3 0 0 (3 / 2), Vector3 0 0 (- (3 / 2))]
   \<and> list_all (\<lambda>q. 1 / 2 - 1 / 1000000 \<le> surfaceDistance box22 q)
        (walk (resolverWith box22 (Vector3 0 0 3)) [Vector3 0 0 3] 0
           (map (\<lambda>s. Vector3 0 0 (- s)) [1, 1, 9 / 5]))"
proof -
  let ?S = "resolverWith box22 (Vector3 0 0 3)"
  let ?pc = "\<lparr>pposition = Vector3 0 0 3, radius = 1 / 2, height = 9 / 5\<rparr>"
  let ?fs = "map (\<lambda>s. Vector3 0 0 (- s)) [1, 1, 9 / 5 :: real]"
  have h1: "colliders ?S = [box22]" by (simp add: resolver_fields box22_def)
  have h2: "vx (wposition box22) = 0" "vz (wposition box22) = 0"
    "vx (wsize box22) = 2" "vz (wsize box22) = 2" by (simp_all add: box22_def)
  have h3: "playerRadius ?S = 1 / 2" "playerCollider ?S = Some ?pc" "spatialGrid ?S = None"
    by (simp_all add: resolver_fields)
  have h4: "0 < length [Vector3 0 0 3]" "vx ([Vector3 0 0 3] ! 0) = 0" "vz ([Vector3 0 0 3] ! 0) = 3"
    by simp_all
  have h5: "\<forall>s \<in> set [1, 1, 9 / 5 :: real]. 0 < s \<and> s < 2" by simp
  have s1: "resolveCollider (1 / 2) (Vector3 0 0 2) box22 = Vector3 0 0 2"
    by (simp add: collide_eval box22_def)
  have s2: "resolveCollider (1 / 2) (Vector3 0 0 1) box22 = Vector3 0 0 (3 / 2)"
    by (simp add: collide_eval box22_def)
  have s3: "resolveCollider (1 / 2) (Vector3 0 0 (- (3 / 10))) box22 = Vector3 0 0 (- (3 / 2))"
    by (simp add: collide_eval box22_def)
  have "walk ?S [Vector3 0 0 3] 0 ?fs
          = walkPositions (playerRadius ?S) box22 ([Vector3 0 0 3] ! 0) ?fs"
    using h1 h3(2,3) h4(1) by (rule walk_single_collider)
  also have "\<dots> = walkPositions (1 / 2) box22 (Vector3 0 0 3) ?fs"
    by (simp only: h3(1) nth_Cons_0)
  also have "\<dots> = [Vector3 0 0 2, Vector3 0 0 (3 / 2), Vector3 0 0 (- (3 / 2))]"
    by (simp add: add3_def s1 s2 s3)
  finally have w: "walk ?S [Vector3 0 0 3] 0 ?fs
          = [Vector3 0 0 2, Vector3 0 0 (3 / 2), Vector3 0 0 (- (3 / 2))]" .
  have "\<forall>q \<in> set (walk ?S [Vector3 0 0 3] 0 ?fs). 1 / 2 - 1 / 1000000 \<le> surfaceDistance box22 q"
    using no_penetration[OF h1 h2 h3 h4 h5] by (rule conjunct2)
  then have "list_all (\<lambda>q. 1 / 2 - 1 / 1000000 \<le> surfaceDistance box22 q) (walk ?S [Vector3 0 0 3] 0 ?fs)"
    by (simp only: list_all_iff)
  moreover have "list_all (\<lambda>s. 0 < s \<and> s < 2) [1, 1, 9 / 5 :: real]"
    using h5 by (simp only: list_all_iff)
  ultimately show ?thesis using w by blast
qed

end
